theory Spec2Isabelle
  imports Complex_Main "HOL-Library.Monad_Syntax" "HOL-Library.Signed_Division"
begin

section \<open>Data model of the FAS multigrid solver\<close>

text \<open>
  The solver of \<^verbatim>\<open>full_multigrid.cpp\<close> is embedded function by function.
  \<^item> \<^verbatim>\<open>idx_t\<close> is modelled as \<open>int\<close> (no overflow is modelled), \<^verbatim>\<open>real_t\<close> as \<open>real\<close>:
    arithmetic on grid values is exact, rounding is not modelled.
  \<^item> Every access to an array goes through \<open>rd\<close> and \<open>wr\<close>, which return \<open>None\<close>
    outside the array: an access out of bounds (undefined behaviour in C++) is the
    value \<open>None\<close> of the model.
  \<^item> Every division of \<^verbatim>\<open>real_t\<close> by a value that can be zero goes through \<open>rdiv\<close>, which
    returns \<open>None\<close> for the divisor zero: the quotient is then an infinity or not a number,
    which \<open>real\<close> does not have, and the model does not follow such a run any further.
  \<^item> What the translation unit takes from its host (\<^verbatim>\<open>NX\<close>, \<^verbatim>\<open>NY\<close>, \<^verbatim>\<open>NZ\<close>,
    \<^verbatim>\<open>H_LEN_FRAC\<close>, \<^verbatim>\<open>STENCIL_ORDER\<close>, \<^verbatim>\<open>pow\<close> and the stencils \<^verbatim>\<open>derivative\<close>,
    \<^verbatim>\<open>double_derivative\<close>, \<^verbatim>\<open>laplacian\<close> of \<^verbatim>\<open>utils/math.h\<close>) is the record \<open>host\<close>,
    a parameter of every function that uses it.
\<close>

type_synonym idx_t = int
type_synonym real_t = real

text \<open>
  Modelled from the spec: the grid type \<^verbatim>\<open>arr_t\<close> of \<^verbatim>\<open>cosmo_types.h\<close> is not among the
  sources. The spec's Grid is an (nx, ny, nz) array of reals with \<open>pts = nx * ny * nz\<close>;
  the fields are the ones the solver reads and writes.
\<close>

record arr_t =
  nx :: idx_t
  ny :: idx_t
  nz :: idx_t
  pts :: idx_t
  arr :: "real_t list"

type_synonym fas_grid_t = arr_t
type_synonym fas_heirarchy_t = "arr_t list"
type_synonym fas_heirarchy_set_t = "arr_t list list"

text \<open>An \<^verbatim>\<open>arr_t\<close> as \<^verbatim>\<open>new fas_grid_t[n]\<close> leaves it, before \<^verbatim>\<open>init\<close>.\<close>

definition arr_default :: arr_t where
  "arr_default = \<lparr>nx = 0, ny = 0, nz = 0, pts = 0, arr = []\<rparr>"

text \<open>
  Modelled from the spec: \<^verbatim>\<open>arr_t::init\<close> (the spec's \<open>create(nx,ny,nz)\<close>) allocates
  \<open>nx * ny * nz\<close> cells; the cells are modelled as zero.
\<close>

definition arr_init :: "idx_t \<Rightarrow> idx_t \<Rightarrow> idx_t \<Rightarrow> arr_t" where
  "arr_init n1 n2 n3 =
     \<lparr>nx = n1, ny = n2, nz = n3, pts = n1 * n2 * n3, arr = replicate (nat (n1 * n2 * n3)) 0\<rparr>"

record atom =
  atype :: idx_t
  u_id :: idx_t
  avalue :: real_t

record molecule =
  atoms :: "atom list"
  atom_n :: idx_t
  const_coef :: real_t

definition molecule_default :: molecule where
  "molecule_default = \<lparr>atoms = [], atom_n = 0, const_coef = 0\<rparr>"

definition add_atom :: "molecule \<Rightarrow> atom \<Rightarrow> molecule" where
  "add_atom m atom_in = m\<lparr>atoms := atoms m @ [atom_in], atom_n := atom_n m + 1\<rparr>"

datatype relax_t = inexact_newton | inexact_newton_constrained | newton

record host =
  NX :: idx_t
  NY :: idx_t
  NZ :: idx_t
  H_LEN_FRAC :: real_t
  STENCIL_ORDER :: idx_t
  pow :: "real_t \<Rightarrow> real_t \<Rightarrow> real_t"
  derivative :: "idx_t \<Rightarrow> idx_t \<Rightarrow> idx_t \<Rightarrow> idx_t \<Rightarrow> idx_t \<Rightarrow> idx_t \<Rightarrow> idx_t \<Rightarrow> arr_t \<Rightarrow> real_t"
  double_derivative ::
    "idx_t \<Rightarrow> idx_t \<Rightarrow> idx_t \<Rightarrow> idx_t \<Rightarrow> idx_t \<Rightarrow> idx_t \<Rightarrow> idx_t \<Rightarrow> idx_t \<Rightarrow> arr_t \<Rightarrow> real_t"
  laplacian :: "idx_t \<Rightarrow> idx_t \<Rightarrow> idx_t \<Rightarrow> idx_t \<Rightarrow> idx_t \<Rightarrow> idx_t \<Rightarrow> arr_t \<Rightarrow> real_t"

record FASMultigrid =
  u_h :: fas_heirarchy_set_t
  tmp_h :: fas_heirarchy_set_t
  coarse_src_h :: fas_heirarchy_set_t
  jac_rhs_h :: fas_heirarchy_set_t
  damping_v_h :: fas_heirarchy_set_t
  rho_h :: "fas_heirarchy_set_t list"
  u_n :: idx_t
  molecule_n :: "idx_t list"
  nx_h :: "idx_t list"
  ny_h :: "idx_t list"
  nz_h :: "idx_t list"
  relaxation_tolerance :: real_t
  max_depth :: idx_t
  max_depth_idx :: idx_t
  min_depth :: idx_t
  min_depth_idx :: idx_t
  total_depths :: idx_t
  max_relax_iters :: idx_t
  relax_scheme :: relax_t
  eqns :: "molecule list list"

subsection \<open>Array access\<close>

definition rd :: "'a list \<Rightarrow> idx_t \<Rightarrow> 'a option" where
  "rd xs i = (if 0 \<le> i \<and> i < int (length xs) then Some (xs ! nat i) else None)"

definition wr :: "'a list \<Rightarrow> idx_t \<Rightarrow> 'a \<Rightarrow> 'a list option" where
  "wr xs i v = (if 0 \<le> i \<and> i < int (length xs) then Some (xs[nat i := v]) else None)"

definition rd2 :: "'a list list \<Rightarrow> idx_t \<Rightarrow> idx_t \<Rightarrow> 'a option" where
  "rd2 xss e d = do { xs \<leftarrow> rd xss e; rd xs d }"

definition wr2 :: "'a list list \<Rightarrow> idx_t \<Rightarrow> idx_t \<Rightarrow> 'a \<Rightarrow> 'a list list option" where
  "wr2 xss e d v = do { xs \<leftarrow> rd xss e; xs' \<leftarrow> wr xs d v; wr xss e xs' }"

text \<open>\<^verbatim>\<open>x / y\<close> on \<^verbatim>\<open>real_t\<close>, where \<open>y\<close> is not a constant of the source.\<close>

definition rdiv :: "real_t \<Rightarrow> real_t \<Rightarrow> real_t option" where
  "rdiv x y = (if y = 0 then None else Some (x / y))"

text \<open>Loops with a body that can fail: the first failure ends the loop.\<close>

fun foldM :: "('s \<Rightarrow> 'a \<Rightarrow> 's option) \<Rightarrow> 's \<Rightarrow> 'a list \<Rightarrow> 's option" where
  "foldM f s [] = Some s"
| "foldM f s (x # xs) = (case f s x of None \<Rightarrow> None | Some s' \<Rightarrow> foldM f s' xs)"

text \<open>\<^verbatim>\<open>for (i = 0; i < n; i++)\<close> visits \<open>idx_range n\<close> in order.\<close>

definition idx_range :: "idx_t \<Rightarrow> idx_t list" where
  "idx_range n = map int [0..<nat n]"

text \<open>The macro \<^verbatim>\<open>FAS_LOOP3_N(i, j, k, nx, ny, nz)\<close>: the sites in the order of the three loops.\<close>

definition FAS_LOOP3_N :: "idx_t \<Rightarrow> idx_t \<Rightarrow> idx_t \<Rightarrow> (idx_t \<times> idx_t \<times> idx_t) list" where
  "FAS_LOOP3_N n1 n2 n3 =
     concat (map (\<lambda>i. concat (map (\<lambda>j. map (\<lambda>k. (i, j, k)) (idx_range n3)) (idx_range n2)))
       (idx_range n1))"

text \<open>
  Modelled from the spec: the macro \<^verbatim>\<open>H_INDEX\<close> of \<^verbatim>\<open>cosmo_macros.h\<close> is not among the
  sources. The spec's Grid has toroidal index arithmetic on all three axes, any integer index
  being valid, and the solver uses the result as a row-major linear index.
\<close>

definition H_INDEX :: "idx_t \<Rightarrow> idx_t \<Rightarrow> idx_t \<Rightarrow> idx_t \<Rightarrow> idx_t \<Rightarrow> idx_t \<Rightarrow> idx_t" where
  "H_INDEX i j k n1 n2 n3 = (i mod n1) * n2 * n3 + (j mod n2) * n3 + k mod n3"

definition dIdx :: "FASMultigrid \<Rightarrow> idx_t \<Rightarrow> idx_t" where
  "dIdx s depth = depth - min_depth s"

definition sign :: "real_t \<Rightarrow> idx_t" where
  "sign x = (if x > 0 then 1 else if x < 0 then -1 else 0)"

section \<open>The constructor\<close>

text \<open>Lines 8 to 29: the scalar members and the outer arrays, one slot per equation.\<close>

definition ctor_members ::
  "idx_t \<Rightarrow> idx_t list \<Rightarrow> idx_t \<Rightarrow> idx_t \<Rightarrow> real_t \<Rightarrow> FASMultigrid" where
  "ctor_members u_n_in molecule_n_in max_depth_in max_relax_iters_in relaxation_tolerance_in =
     \<lparr>u_h = replicate (nat u_n_in) [],
      tmp_h = replicate (nat u_n_in) [],
      coarse_src_h = replicate (nat u_n_in) [],
      jac_rhs_h = replicate (nat u_n_in) [],
      damping_v_h = replicate (nat u_n_in) [],
      rho_h = replicate (nat u_n_in) [],
      u_n = u_n_in,
      molecule_n = molecule_n_in,
      nx_h = [], ny_h = [], nz_h = [],
      relaxation_tolerance = relaxation_tolerance_in,
      max_depth = max_depth_in,
      max_depth_idx = max_depth_in - 1,
      min_depth = 1,
      min_depth_idx = 1 - 1,
      total_depths = max_depth_in - 1 + 1,
      max_relax_iters = max_relax_iters_in,
      relax_scheme = inexact_newton,
      eqns = replicate (nat u_n_in) []\<rparr>"

text \<open>The grid after \<^verbatim>\<open>init(nx, ny, nz)\<close> and the four assignments to its fields.\<close>

definition ctor_grid :: "idx_t \<Rightarrow> idx_t \<Rightarrow> idx_t \<Rightarrow> arr_t" where
  "ctor_grid n1 n2 n3 = (arr_init n1 n2 n3)\<lparr>nx := n1, ny := n2, nz := n3, pts := n1 * n2 * n3\<rparr>"

text \<open>Lines 49 to 98: one round of the loop over the depths, for equation \<open>eqn_id\<close>.\<close>

definition ctor_depth ::
  "host \<Rightarrow> arr_t \<Rightarrow> idx_t \<Rightarrow> FASMultigrid \<Rightarrow> idx_t \<Rightarrow> FASMultigrid option" where
  "ctor_depth h u_in_e eqn_id s depth =
     (let depth_idx = dIdx s depth in
      do {
        s1 \<leftarrow> (if depth_idx = dIdx s (max_depth s) then
                 do {
                   xs \<leftarrow> wr (nx_h s) depth_idx (NX h);
                   ys \<leftarrow> wr (ny_h s) depth_idx (NY h);
                   zs \<leftarrow> wr (nz_h s) depth_idx (NZ h);
                   g \<leftarrow> rd2 (u_h s) eqn_id depth_idx;
                   u' \<leftarrow> wr2 (u_h s) eqn_id depth_idx
                     (g\<lparr>arr := arr u_in_e, nx := NX h, ny := NY h, nz := NZ h,
                        pts := NX h * NY h * NZ h\<rparr>);
                   Some (s\<lparr>nx_h := xs, ny_h := ys, nz_h := zs, u_h := u'\<rparr>)
                 }
               else
                 do {
                   fx \<leftarrow> rd (nx_h s) (depth_idx + 1);
                   xs \<leftarrow> wr (nx_h s) depth_idx (fx sdiv 2 + fx smod 2);
                   fy \<leftarrow> rd (ny_h s) (depth_idx + 1);
                   ys \<leftarrow> wr (ny_h s) depth_idx (fy sdiv 2 + fy smod 2);
                   fz \<leftarrow> rd (nz_h s) (depth_idx + 1);
                   zs \<leftarrow> wr (nz_h s) depth_idx (fz sdiv 2 + fz smod 2);
                   u' \<leftarrow> wr2 (u_h s) eqn_id depth_idx
                     (ctor_grid (fx sdiv 2 + fx smod 2) (fy sdiv 2 + fy smod 2)
                        (fz sdiv 2 + fz smod 2));
                   Some (s\<lparr>nx_h := xs, ny_h := ys, nz_h := zs, u_h := u'\<rparr>)
                 });
        n1 \<leftarrow> rd (nx_h s1) depth_idx;
        n2 \<leftarrow> rd (ny_h s1) depth_idx;
        n3 \<leftarrow> rd (nz_h s1) depth_idx;
        c' \<leftarrow> wr2 (coarse_src_h s1) eqn_id depth_idx (ctor_grid n1 n2 n3);
        d' \<leftarrow> wr2 (damping_v_h s1) eqn_id depth_idx (ctor_grid n1 n2 n3);
        j' \<leftarrow> wr2 (jac_rhs_h s1) eqn_id depth_idx (ctor_grid n1 n2 n3);
        t' \<leftarrow> wr2 (tmp_h s1) eqn_id depth_idx (ctor_grid n1 n2 n3);
        Some (s1\<lparr>coarse_src_h := c', damping_v_h := d', jac_rhs_h := j', tmp_h := t'\<rparr>)
      })"

text \<open>The depths from \<open>max_depth\<close> down to \<open>min_depth\<close>, as the loops of the constructor visit them.\<close>

definition depths_down :: "FASMultigrid \<Rightarrow> idx_t list" where
  "depths_down s = rev [min_depth s..max_depth s]"

text \<open>Lines 107 to 112: one \<^verbatim>\<open>rho\<close> grid.\<close>

definition ctor_rho_depth ::
  "idx_t \<Rightarrow> idx_t \<Rightarrow> FASMultigrid \<Rightarrow> idx_t \<Rightarrow> FASMultigrid option" where
  "ctor_rho_depth eqn_id mol_id s depth =
     (let depth_idx = dIdx s depth in
      do {
        n1 \<leftarrow> rd (nx_h s) depth_idx;
        n2 \<leftarrow> rd (ny_h s) depth_idx;
        n3 \<leftarrow> rd (nz_h s) depth_idx;
        rs \<leftarrow> rd (rho_h s) eqn_id;
        rs' \<leftarrow> wr2 rs mol_id depth_idx (ctor_grid n1 n2 n3);
        r' \<leftarrow> wr (rho_h s) eqn_id rs';
        Some (s\<lparr>rho_h := r'\<rparr>)
      })"

definition ctor_rho_mol :: "idx_t \<Rightarrow> FASMultigrid \<Rightarrow> idx_t \<Rightarrow> FASMultigrid option" where
  "ctor_rho_mol eqn_id s mol_id =
     do {
       rs \<leftarrow> rd (rho_h s) eqn_id;
       rs' \<leftarrow> wr rs mol_id (replicate (nat (total_depths s)) arr_default);
       r' \<leftarrow> wr (rho_h s) eqn_id rs';
       foldM (ctor_rho_depth eqn_id mol_id) (s\<lparr>rho_h := r'\<rparr>) (depths_down s)
     }"

text \<open>Lines 33 to 114: the body of the loop over the equations.\<close>

definition ctor_eqn :: "host \<Rightarrow> arr_t list \<Rightarrow> FASMultigrid \<Rightarrow> idx_t \<Rightarrow> FASMultigrid option" where
  "ctor_eqn h u_in s eqn_id =
     (let fresh = replicate (nat (total_depths s)) arr_default in
      do {
        u' \<leftarrow> wr (u_h s) eqn_id fresh;
        c' \<leftarrow> wr (coarse_src_h s) eqn_id fresh;
        d' \<leftarrow> wr (damping_v_h s) eqn_id fresh;
        j' \<leftarrow> wr (jac_rhs_h s) eqn_id fresh;
        t' \<leftarrow> wr (tmp_h s) eqn_id fresh;
        mn \<leftarrow> rd (molecule_n s) eqn_id;
        r' \<leftarrow> wr (rho_h s) eqn_id (replicate (nat mn) []);
        e' \<leftarrow> wr (eqns s) eqn_id (replicate (nat mn) molecule_default);
        u_in_e \<leftarrow> rd u_in eqn_id;
        s2 \<leftarrow> foldM (ctor_depth h u_in_e eqn_id)
                (s\<lparr>u_h := u', coarse_src_h := c', damping_v_h := d', jac_rhs_h := j',
                   tmp_h := t', rho_h := r',
                   nx_h := replicate (nat (total_depths s)) 0,
                   ny_h := replicate (nat (total_depths s)) 0,
                   nz_h := replicate (nat (total_depths s)) 0,
                   eqns := e'\<rparr>)
                (depths_down s);
        foldM (ctor_rho_mol eqn_id) s2 (idx_range mn)
      })"

definition FASMultigrid_new ::
  "host \<Rightarrow> arr_t list \<Rightarrow> idx_t \<Rightarrow> idx_t list \<Rightarrow> idx_t \<Rightarrow> idx_t \<Rightarrow> real_t \<Rightarrow> FASMultigrid option" where
  "FASMultigrid_new h u_in u_n_in molecule_n_in max_depth_in max_relax_iters_in
       relaxation_tolerance_in =
     foldM (ctor_eqn h u_in)
       (ctor_members u_n_in molecule_n_in max_depth_in max_relax_iters_in relaxation_tolerance_in)
       (idx_range u_n_in)"

section \<open>The pointwise evaluators\<close>

text \<open>
  The table \<^verbatim>\<open>der_type[12][2]\<close>, as the constructor fills it (lines 120 to 141); a cell it
  does not fill holds no value.
\<close>

definition der_type :: "idx_t \<Rightarrow> idx_t \<Rightarrow> idx_t option" where
  "der_type r c =
     (if r = 0 \<and> c = 0 then Some 1 else if r = 1 \<and> c = 0 then Some 2
      else if r = 2 \<and> c = 0 then Some 3
      else if r = 3 \<and> c = 0 then Some 1 else if r = 3 \<and> c = 1 then Some 1
      else if r = 4 \<and> c = 0 then Some 2 else if r = 4 \<and> c = 1 then Some 2
      else if r = 5 \<and> c = 0 then Some 3 else if r = 5 \<and> c = 1 then Some 3
      else if r = 6 \<and> c = 0 then Some 1 else if r = 6 \<and> c = 1 then Some 2
      else if r = 7 \<and> c = 0 then Some 1 else if r = 7 \<and> c = 1 then Some 3
      else if r = 8 \<and> c = 0 then Some 2 else if r = 8 \<and> c = 1 then Some 3
      else None)"

text \<open>The table \<^verbatim>\<open>double_der_coef[9]\<close> (lines 147 to 150).\<close>

definition double_der_coef :: "idx_t \<Rightarrow> real_t option" where
  "double_der_coef n =
     (if n = 2 then Some 2 else if n = 4 then Some (5 / 2) else if n = 6 then Some (49 / 18)
      else if n = 8 then Some (205 / 72) else None)"

definition get_atom :: "FASMultigrid \<Rightarrow> idx_t \<Rightarrow> idx_t \<Rightarrow> idx_t \<Rightarrow> atom option" where
  "get_atom s eqn_id mol_id atom_id =
     do { m \<leftarrow> rd2 (eqns s) eqn_id mol_id; rd (atoms m) atom_id }"

text \<open>\<^verbatim>\<open>H_INDEX(i,j,k,nx_h[depth_idx],ny_h[depth_idx],nz_h[depth_idx])\<close>\<close>

definition pos_index :: "FASMultigrid \<Rightarrow> idx_t \<Rightarrow> idx_t \<Rightarrow> idx_t \<Rightarrow> idx_t \<Rightarrow> idx_t option" where
  "pos_index s depth_idx i j k =
     do {
       n1 \<leftarrow> rd (nx_h s) depth_idx;
       n2 \<leftarrow> rd (ny_h s) depth_idx;
       n3 \<leftarrow> rd (nz_h s) depth_idx;
       Some (H_INDEX i j k n1 n2 n3)
     }"

text \<open>\<^verbatim>\<open>rho_h[eqn_id][mol_id][depth_idx][pos_idx]\<close>\<close>

definition rho_at :: "FASMultigrid \<Rightarrow> idx_t \<Rightarrow> idx_t \<Rightarrow> idx_t \<Rightarrow> idx_t \<Rightarrow> real_t option" where
  "rho_at s eqn_id mol_id depth_idx pos_idx =
     do { hs \<leftarrow> rd (rho_h s) eqn_id; g \<leftarrow> rd2 hs mol_id depth_idx; rd (arr g) pos_idx }"

text \<open>One round of the loop over the atoms in \<^verbatim>\<open>_evaluateEllipticEquationPt\<close> (lines 169 to 194).\<close>

definition eval_atom ::
  "host \<Rightarrow> FASMultigrid \<Rightarrow> idx_t \<Rightarrow> idx_t \<Rightarrow> idx_t \<Rightarrow> idx_t \<Rightarrow> idx_t \<Rightarrow> idx_t \<Rightarrow>
   real_t \<Rightarrow> idx_t \<Rightarrow> real_t option" where
  "eval_atom h s eqn_id mol_id depth_idx i j k val atom_id =
     do {
       ad \<leftarrow> get_atom s eqn_id mol_id atom_id;
       pos_idx \<leftarrow> pos_index s depth_idx i j k;
       if atype ad = 0 then
         do { r \<leftarrow> rho_at s eqn_id mol_id depth_idx pos_idx; Some (val * r) }
       else if atype ad = 1 then
         do {
           vd \<leftarrow> rd2 (u_h s) (u_id ad) depth_idx;
           x \<leftarrow> rd (arr vd) pos_idx;
           Some (val * pow h x (avalue ad))
         }
       else if atype ad \<le> 4 then
         do {
           vd \<leftarrow> rd2 (u_h s) (u_id ad) depth_idx;
           t0 \<leftarrow> der_type (atype ad - 2) 0;
           Some (val * derivative h i j k (nx vd) (ny vd) (nz vd) t0 vd)
         }
       else if atype ad \<le> 10 then
         do {
           vd \<leftarrow> rd2 (u_h s) (u_id ad) depth_idx;
           t0 \<leftarrow> der_type (atype ad - 2) 0;
           t1 \<leftarrow> der_type (atype ad - 2) 1;
           Some (val * double_derivative h i j k (nx vd) (ny vd) (nz vd) t0 t1 vd)
         }
       else
         do {
           vd \<leftarrow> rd2 (u_h s) (u_id ad) depth_idx;
           Some (val * laplacian h i j k (nx vd) (ny vd) (nz vd) vd)
         }
     }"

definition evaluateEllipticEquationPt ::
  "host \<Rightarrow> FASMultigrid \<Rightarrow> idx_t \<Rightarrow> idx_t \<Rightarrow> idx_t \<Rightarrow> idx_t \<Rightarrow> idx_t \<Rightarrow> real_t option" where
  "evaluateEllipticEquationPt h s eqn_id depth_idx i j k =
     do {
       mn \<leftarrow> rd (molecule_n s) eqn_id;
       foldM (\<lambda>res mol_id.
           do {
             m \<leftarrow> rd2 (eqns s) eqn_id mol_id;
             val \<leftarrow> foldM (eval_atom h s eqn_id mol_id depth_idx i j k) 1 (idx_range (atom_n m));
             Some (res + val)
           })
         0 (idx_range mn)
     }"

text \<open>
  One round of the loop over the atoms in \<^verbatim>\<open>_evaluateDerEllipticEquation\<close> (lines 329 to
  406), on the pair \<open>(non_der_val, der_val)\<close>. The parameter \<^verbatim>\<open>u_id\<close> of the source is
  \<open>var_id\<close> here, the name its declaration in the header gives it.
\<close>

definition der_atom ::
  "host \<Rightarrow> FASMultigrid \<Rightarrow> idx_t \<Rightarrow> idx_t \<Rightarrow> idx_t \<Rightarrow> idx_t \<Rightarrow> idx_t \<Rightarrow> idx_t \<Rightarrow> idx_t \<Rightarrow>
   real_t \<times> real_t \<Rightarrow> idx_t \<Rightarrow> (real_t \<times> real_t) option" where
  "der_atom h s eqn_id mol_id depth_idx i j k var_id acc atom_id =
     (case acc of (non_der_val, der_val) \<Rightarrow>
      do {
        ad \<leftarrow> get_atom s eqn_id mol_id atom_id;
        pos_idx \<leftarrow> pos_index s depth_idx i j k;
        if atype ad = 0 then
          do {
            r \<leftarrow> rho_at s eqn_id mol_id depth_idx pos_idx;
            Some (non_der_val * r, der_val * r)
          }
        else if atype ad = 1 then
          do {
            vd \<leftarrow> rd2 (u_h s) (u_id ad) depth_idx;
            jac_vd \<leftarrow> rd2 (damping_v_h s) var_id depth_idx;
            if var_id = u_id ad then
              do {
                x \<leftarrow> rd (arr vd) pos_idx;
                v \<leftarrow> rd (arr jac_vd) pos_idx;
                Some (non_der_val * pow h x (avalue ad),
                      non_der_val * avalue ad * pow h x (avalue ad - 1) * v
                        + der_val * pow h x (avalue ad))
              }
            else
              do {
                x \<leftarrow> rd (arr vd) pos_idx;
                Some (non_der_val * pow h x (avalue ad), der_val * pow h x (avalue ad))
              }
          }
        else if atype ad \<le> 4 then
          do {
            vd \<leftarrow> rd2 (u_h s) (u_id ad) depth_idx;
            jac_vd \<leftarrow> rd2 (damping_v_h s) var_id depth_idx;
            t0 \<leftarrow> der_type (atype ad - 2) 0;
            if var_id = u_id ad then
              Some (non_der_val * derivative h i j k (nx vd) (ny vd) (nz vd) t0 vd,
                    non_der_val
                        * derivative h i j k (nx jac_vd) (ny jac_vd) (nz jac_vd) t0 jac_vd
                      + der_val * derivative h i j k (nx vd) (ny vd) (nz vd) t0 vd)
            else
              Some (non_der_val * derivative h i j k (nx vd) (ny vd) (nz vd) t0 vd,
                    der_val * derivative h i j k (nx vd) (ny vd) (nz vd) t0 vd)
          }
        else if atype ad \<le> 10 then
          do {
            vd \<leftarrow> rd2 (u_h s) (u_id ad) depth_idx;
            jac_vd \<leftarrow> rd2 (damping_v_h s) var_id depth_idx;
            t0 \<leftarrow> der_type (atype ad - 2) 0;
            t1 \<leftarrow> der_type (atype ad - 2) 1;
            if var_id = u_id ad then
              Some (non_der_val * double_derivative h i j k (nx vd) (ny vd) (nz vd) t0 t1 vd,
                    non_der_val
                        * double_derivative h i j k (nx jac_vd) (ny jac_vd) (nz jac_vd) t0 t1
                            jac_vd
                      + der_val * double_derivative h i j k (nx vd) (ny vd) (nz vd) t0 t1 vd)
            else
              Some (non_der_val * double_derivative h i j k (nx vd) (ny vd) (nz vd) t0 t1 vd,
                    der_val * double_derivative h i j k (nx vd) (ny vd) (nz vd) t0 t1 vd)
          }
        else
          do {
            vd \<leftarrow> rd2 (u_h s) (u_id ad) depth_idx;
            jac_vd \<leftarrow> rd2 (damping_v_h s) var_id depth_idx;
            if eqn_id = u_id ad then
              Some (non_der_val * laplacian h i j k (nx jac_vd) (ny jac_vd) (nz jac_vd) vd,
                    non_der_val * laplacian h i j k (nx vd) (ny vd) (nz vd) jac_vd
                      + der_val * laplacian h i j k (nx jac_vd) (ny jac_vd) (nz jac_vd) vd)
            else
              Some (non_der_val * laplacian h i j k (nx vd) (ny vd) (nz vd) vd,
                    der_val * laplacian h i j k (nx vd) (ny vd) (nz vd) vd)
          }
      })"

definition evaluateDerEllipticEquation ::
  "host \<Rightarrow> FASMultigrid \<Rightarrow> idx_t \<Rightarrow> idx_t \<Rightarrow> idx_t \<Rightarrow> idx_t \<Rightarrow> idx_t \<Rightarrow> idx_t \<Rightarrow>
   real_t option" where
  "evaluateDerEllipticEquation h s eqn_id depth_idx i j k var_id =
     do {
       mn \<leftarrow> rd (molecule_n s) eqn_id;
       foldM (\<lambda>res mol_id.
           do {
             m \<leftarrow> rd2 (eqns s) eqn_id mol_id;
             acc \<leftarrow> foldM (der_atom h s eqn_id mol_id depth_idx i j k var_id) (1, 0)
                     (idx_range (atom_n m));
             Some (res + snd acc)
           })
         0 (idx_range mn)
     }"

text \<open>
  The four running values of \<^verbatim>\<open>_evaluateIterationForJacEquation\<close>, and one round of its
  loop over the atoms (lines 214 to 312). \<open>dx\<close> is \<^verbatim>\<open>H_LEN_FRAC / nx_h[depth_idx]\<close>; the
  divisions by \<^verbatim>\<open>dx * dx\<close> go through \<open>rdiv\<close>. For \<^verbatim>\<open>nx_h[depth_idx] = 0\<close> the \<open>dx\<close> of
  the model is 0, so that these divisions are not followed either.
\<close>

record jac_acc =
  mol_to_a :: real_t
  mol_to_b :: real_t
  non_der_val :: real_t
  der_val :: real_t

definition jac_scale :: "jac_acc \<Rightarrow> real_t \<Rightarrow> jac_acc" where
  "jac_scale a x =
     \<lparr>mol_to_a = mol_to_a a * x, mol_to_b = mol_to_b a * x, non_der_val = non_der_val a * x,
      der_val = der_val a * x\<rparr>"

definition jac_atom ::
  "host \<Rightarrow> FASMultigrid \<Rightarrow> idx_t \<Rightarrow> idx_t \<Rightarrow> idx_t \<Rightarrow> idx_t \<Rightarrow> idx_t \<Rightarrow> idx_t \<Rightarrow> idx_t \<Rightarrow>
   real_t \<Rightarrow> jac_acc \<Rightarrow> idx_t \<Rightarrow> jac_acc option" where
  "jac_atom h s eqn_id mol_id depth_idx i j k var_id dx a atom_id =
     do {
       ad \<leftarrow> get_atom s eqn_id mol_id atom_id;
       pos_idx \<leftarrow> pos_index s depth_idx i j k;
       if atype ad = 0 then
         do { r \<leftarrow> rho_at s eqn_id mol_id depth_idx pos_idx; Some (jac_scale a r) }
       else if atype ad = 1 then
         do {
           vd \<leftarrow> rd2 (u_h s) (u_id ad) depth_idx;
           jac_vd \<leftarrow> rd2 (damping_v_h s) var_id depth_idx;
           if var_id = u_id ad then
             do {
               x \<leftarrow> rd (arr vd) pos_idx;
               v \<leftarrow> rd (arr jac_vd) pos_idx;
               Some \<lparr>mol_to_a = mol_to_a a * pow h x (avalue ad),
                     mol_to_b = mol_to_b a * pow h x (avalue ad)
                       + non_der_val a * avalue ad * pow h x (avalue ad - 1),
                     non_der_val = non_der_val a * pow h x (avalue ad),
                     der_val = non_der_val a * avalue ad * pow h x (avalue ad - 1) * v
                       + der_val a * pow h x (avalue ad)\<rparr>
             }
           else
             do { x \<leftarrow> rd (arr vd) pos_idx; Some (jac_scale a (pow h x (avalue ad))) }
         }
       else if atype ad \<le> 4 then
         do {
           vd \<leftarrow> rd2 (u_h s) (u_id ad) depth_idx;
           jac_vd \<leftarrow> rd2 (damping_v_h s) var_id depth_idx;
           t0 \<leftarrow> der_type (atype ad - 2) 0;
           if var_id = u_id ad then
             Some \<lparr>mol_to_a = mol_to_a a * derivative h i j k (nx vd) (ny vd) (nz vd) t0 vd
                     + non_der_val a
                       * derivative h i j k (nx jac_vd) (ny jac_vd) (nz jac_vd) t0 jac_vd,
                   mol_to_b = mol_to_b a * derivative h i j k (nx vd) (ny vd) (nz vd) t0 vd,
                   non_der_val = non_der_val a * derivative h i j k (nx vd) (ny vd) (nz vd) t0 vd,
                   der_val = non_der_val a
                       * derivative h i j k (nx jac_vd) (ny jac_vd) (nz jac_vd) t0 jac_vd
                     + der_val a * derivative h i j k (nx vd) (ny vd) (nz vd) t0 vd\<rparr>
           else
             Some (jac_scale a (derivative h i j k (nx vd) (ny vd) (nz vd) t0 vd))
         }
       else if atype ad \<le> 10 then
         do {
           vd \<leftarrow> rd2 (u_h s) (u_id ad) depth_idx;
           jac_vd \<leftarrow> rd2 (damping_v_h s) var_id depth_idx;
           t0 \<leftarrow> der_type (atype ad - 2) 0;
           t1 \<leftarrow> der_type (atype ad - 2) 1;
           if var_id = u_id ad then
             do {
               coef \<leftarrow> double_der_coef (STENCIL_ORDER h);
               v \<leftarrow> rd (arr jac_vd) pos_idx;
               qa \<leftarrow> rdiv (of_bool (atype ad \<le> 7) * coef * v) (dx * dx);
               qb \<leftarrow> rdiv (of_bool (atype ad \<le> 7) * non_der_val a * coef) (dx * dx);
               Some \<lparr>mol_to_a =
                       mol_to_a a * double_derivative h i j k (nx vd) (ny vd) (nz vd) t0 t1 vd
                       + non_der_val a
                         * (double_derivative h i j k (nx jac_vd) (ny jac_vd) (nz jac_vd) t0 t1
                              jac_vd
                            + qa),
                     mol_to_b =
                       mol_to_b a * double_derivative h i j k (nx vd) (ny vd) (nz vd) t0 t1 vd
                       - qb,
                     non_der_val =
                       non_der_val a * double_derivative h i j k (nx vd) (ny vd) (nz vd) t0 t1 vd,
                     der_val =
                       non_der_val a
                         * double_derivative h i j k (nx jac_vd) (ny jac_vd) (nz jac_vd) t0 t1
                             jac_vd
                       + der_val a
                         * double_derivative h i j k (nx vd) (ny vd) (nz vd) t0 t1 vd\<rparr>
             }
           else
             Some (jac_scale a (double_derivative h i j k (nx vd) (ny vd) (nz vd) t0 t1 vd))
         }
       else
         do {
           vd \<leftarrow> rd2 (u_h s) (u_id ad) depth_idx;
           jac_vd \<leftarrow> rd2 (damping_v_h s) var_id depth_idx;
           if var_id = u_id ad then
             do {
               coef \<leftarrow> double_der_coef (STENCIL_ORDER h);
               v \<leftarrow> rd (arr jac_vd) pos_idx;
               qa \<leftarrow> rdiv (3 * coef * v) (dx * dx);
               qb \<leftarrow> rdiv (non_der_val a * 3 * coef) (dx * dx);
               Some \<lparr>mol_to_a =
                       mol_to_a a * laplacian h i j k (nx jac_vd) (ny jac_vd) (nz jac_vd) vd
                       + non_der_val a
                         * (laplacian h i j k (nx jac_vd) (ny jac_vd) (nz jac_vd) jac_vd
                            + qa),
                     mol_to_b =
                       mol_to_b a * laplacian h i j k (nx jac_vd) (ny jac_vd) (nz jac_vd) vd
                       - qb,
                     non_der_val =
                       non_der_val a * laplacian h i j k (nx jac_vd) (ny jac_vd) (nz jac_vd) vd,
                     der_val =
                       non_der_val a * laplacian h i j k (nx vd) (ny vd) (nz vd) jac_vd
                       + der_val a
                         * laplacian h i j k (nx jac_vd) (ny jac_vd) (nz jac_vd) vd\<rparr>
             }
           else
             Some (jac_scale a (laplacian h i j k (nx vd) (ny vd) (nz vd) vd))
         }
     }"

text \<open>
  \<^verbatim>\<open>_evaluateIterationForJacEquation\<close> adds to \<^verbatim>\<open>coef_a\<close> and \<^verbatim>\<open>coef_b\<close>, passed by
  reference: the model takes the pair and returns it.
\<close>

definition evaluateIterationForJacEquation ::
  "host \<Rightarrow> FASMultigrid \<Rightarrow> idx_t \<Rightarrow> idx_t \<Rightarrow> real_t \<times> real_t \<Rightarrow> idx_t \<Rightarrow> idx_t \<Rightarrow> idx_t \<Rightarrow>
   idx_t \<Rightarrow> (real_t \<times> real_t) option" where
  "evaluateIterationForJacEquation h s eqn_id depth_idx coefs i j k var_id =
     do {
       n1 \<leftarrow> rd (nx_h s) depth_idx;
       mn \<leftarrow> rd (molecule_n s) eqn_id;
       foldM (\<lambda>(coef_a, coef_b) mol_id.
           do {
             m \<leftarrow> rd2 (eqns s) eqn_id mol_id;
             a \<leftarrow> foldM
                   (jac_atom h s eqn_id mol_id depth_idx i j k var_id
                      (H_LEN_FRAC h / real_of_int n1))
                   \<lparr>mol_to_a = 0, mol_to_b = 0, non_der_val = 1, der_val = 0\<rparr>
                   (idx_range (atom_n m));
             Some (coef_a + mol_to_a a, coef_b + mol_to_b a)
           })
         coefs (idx_range mn)
     }"

section \<open>Grid operations and transfer between depths\<close>

text \<open>
  The functions that take a \<^verbatim>\<open>fas_heirarchy_t\<close> receive a pointer to one of the solver's
  own hierarchies. The model names the hierarchy (\<open>href\<close>), reads it from the state with
  \<open>load\<close> and writes it back with \<open>store\<close>, so that a write through the pointer is seen by
  every later read of the state.
\<close>

datatype href =
  U_h idx_t | Tmp_h idx_t | Coarse_src_h idx_t | Jac_rhs_h idx_t | Damping_v_h idx_t
  | Rho_h idx_t idx_t

definition load :: "FASMultigrid \<Rightarrow> href \<Rightarrow> fas_heirarchy_t option" where
  "load s r =
     (case r of
        U_h e \<Rightarrow> rd (u_h s) e
      | Tmp_h e \<Rightarrow> rd (tmp_h s) e
      | Coarse_src_h e \<Rightarrow> rd (coarse_src_h s) e
      | Jac_rhs_h e \<Rightarrow> rd (jac_rhs_h s) e
      | Damping_v_h e \<Rightarrow> rd (damping_v_h s) e
      | Rho_h e m \<Rightarrow> do { hs \<leftarrow> rd (rho_h s) e; rd hs m })"

definition store :: "FASMultigrid \<Rightarrow> href \<Rightarrow> fas_heirarchy_t \<Rightarrow> FASMultigrid option" where
  "store s r gh =
     (case r of
        U_h e \<Rightarrow> do { x \<leftarrow> wr (u_h s) e gh; Some (s\<lparr>u_h := x\<rparr>) }
      | Tmp_h e \<Rightarrow> do { x \<leftarrow> wr (tmp_h s) e gh; Some (s\<lparr>tmp_h := x\<rparr>) }
      | Coarse_src_h e \<Rightarrow> do { x \<leftarrow> wr (coarse_src_h s) e gh; Some (s\<lparr>coarse_src_h := x\<rparr>) }
      | Jac_rhs_h e \<Rightarrow> do { x \<leftarrow> wr (jac_rhs_h s) e gh; Some (s\<lparr>jac_rhs_h := x\<rparr>) }
      | Damping_v_h e \<Rightarrow> do { x \<leftarrow> wr (damping_v_h s) e gh; Some (s\<lparr>damping_v_h := x\<rparr>) }
      | Rho_h e m \<Rightarrow>
          do {
            hs \<leftarrow> rd (rho_h s) e;
            hs' \<leftarrow> wr hs m gh;
            x \<leftarrow> wr (rho_h s) e hs';
            Some (s\<lparr>rho_h := x\<rparr>)
          })"

text \<open>\<^verbatim>\<open>grid[idx] = v\<close> on the grid at \<open>depth_idx\<close> of the hierarchy \<open>r\<close>.\<close>

definition poke :: "FASMultigrid \<Rightarrow> href \<Rightarrow> idx_t \<Rightarrow> idx_t \<Rightarrow> real_t \<Rightarrow> FASMultigrid option" where
  "poke s r depth_idx idx v =
     do {
       gh \<leftarrow> load s r;
       g \<leftarrow> rd gh depth_idx;
       a \<leftarrow> wr (arr g) idx v;
       gh' \<leftarrow> wr gh depth_idx (g\<lparr>arr := a\<rparr>);
       store s r gh'
     }"

definition peek :: "FASMultigrid \<Rightarrow> href \<Rightarrow> idx_t \<Rightarrow> idx_t \<Rightarrow> real_t option" where
  "peek s r depth_idx idx = do { gh \<leftarrow> load s r; g \<leftarrow> rd gh depth_idx; rd (arr g) idx }"

definition zeroGrid :: "arr_t \<Rightarrow> arr_t option" where
  "zeroGrid grid =
     do { a \<leftarrow> foldM (\<lambda>a i. wr a i 0) (arr grid) (idx_range (pts grid)); Some (grid\<lparr>arr := a\<rparr>) }"

text \<open>
  The 27 cells of the restriction kernel around the fine cell, as offsets, in the order in
  which lines 490 to 519 read them.
\<close>

definition face_offsets :: "(idx_t \<times> idx_t \<times> idx_t) list" where
  "face_offsets = [(1, 0, 0), (0, 1, 0), (0, 0, 1), (-1, 0, 0), (0, -1, 0), (0, 0, -1)]"

definition edge_offsets :: "(idx_t \<times> idx_t \<times> idx_t) list" where
  "edge_offsets =
     [(1, 1, 0), (1, -1, 0), (-1, 1, 0), (-1, -1, 0), (1, 0, 1), (1, 0, -1), (-1, 0, 1),
      (-1, 0, -1), (0, 1, 1), (0, 1, -1), (0, -1, 1), (0, -1, -1)]"

definition corner_offsets :: "(idx_t \<times> idx_t \<times> idx_t) list" where
  "corner_offsets =
     [(1, 1, 1), (1, 1, -1), (1, -1, 1), (-1, 1, 1), (1, -1, -1), (-1, 1, -1), (-1, -1, 1),
      (-1, -1, -1)]"

text \<open>The sum of the fine cells at the given offsets from \<open>(fi, fj, fk)\<close>.\<close>

definition fine_sum ::
  "arr_t \<Rightarrow> idx_t \<Rightarrow> idx_t \<Rightarrow> idx_t \<Rightarrow> idx_t \<Rightarrow> idx_t \<Rightarrow> idx_t \<Rightarrow> (idx_t \<times> idx_t \<times> idx_t) list \<Rightarrow>
   real_t option" where
  "fine_sum fine_grid fi fj fk n1 n2 n3 offs =
     foldM (\<lambda>acc (a, b, c).
         do { x \<leftarrow> rd (arr fine_grid) (H_INDEX (fi + a) (fj + b) (fk + c) n1 n2 n3); Some (acc + x) })
       0 offs"

definition restrict_cell ::
  "arr_t \<Rightarrow> idx_t \<Rightarrow> idx_t \<Rightarrow> idx_t \<Rightarrow> idx_t \<Rightarrow> idx_t \<Rightarrow> idx_t \<Rightarrow> real_t option" where
  "restrict_cell fine_grid fi fj fk n1 n2 n3 =
     do {
       c \<leftarrow> rd (arr fine_grid) (H_INDEX fi fj fk n1 n2 n3);
       f \<leftarrow> fine_sum fine_grid fi fj fk n1 n2 n3 face_offsets;
       e \<leftarrow> fine_sum fine_grid fi fj fk n1 n2 n3 edge_offsets;
       r \<leftarrow> fine_sum fine_grid fi fj fk n1 n2 n3 corner_offsets;
       Some (0.125 * c + 0.0625 * f + 0.03125 * e + 0.015625 * r)
     }"

text \<open>\<^verbatim>\<open>_restrictFine2coarse\<close> on a hierarchy (lines 469 to 522).\<close>

definition restrict_h :: "FASMultigrid \<Rightarrow> fas_heirarchy_t \<Rightarrow> idx_t \<Rightarrow> fas_heirarchy_t option" where
  "restrict_h s grid_heirarchy fine_depth =
     (let fine_idx = dIdx s fine_depth; coarse_idx = fine_idx - 1 in
      do {
        fine_grid \<leftarrow> rd grid_heirarchy fine_idx;
        let n_fine_x = nx fine_grid;
        let n_fine_y = ny fine_grid;
        let n_fine_z = nz fine_grid;
        let n_coarse_x = n_fine_x sdiv 2;
        let n_coarse_y = n_fine_y sdiv 2;
        let n_coarse_z = n_fine_z sdiv 2;
        coarse_grid \<leftarrow> rd grid_heirarchy coarse_idx;
        a \<leftarrow> foldM (\<lambda>a (i, j, k).
                 do {
                   v \<leftarrow> restrict_cell fine_grid (i * 2) (j * 2) (k * 2) n_fine_x n_fine_y n_fine_z;
                   wr a (H_INDEX i j k n_coarse_x n_coarse_y n_coarse_z) v
                 })
               (arr coarse_grid) (FAS_LOOP3_N n_coarse_x n_coarse_y n_coarse_z);
        wr grid_heirarchy coarse_idx (coarse_grid\<lparr>arr := a\<rparr>)
      })"

definition restrictFine2coarse :: "FASMultigrid \<Rightarrow> href \<Rightarrow> idx_t \<Rightarrow> FASMultigrid option" where
  "restrictFine2coarse s r fine_depth =
     do { gh \<leftarrow> load s r; gh' \<leftarrow> restrict_h s gh fine_depth; store s r gh' }"

text \<open>The three loops over \<^verbatim>\<open>i_adj\<close>, \<^verbatim>\<open>j_adj\<close>, \<^verbatim>\<open>k_adj\<close> from -1 to 1.\<close>

definition adj_offsets :: "(idx_t \<times> idx_t \<times> idx_t) list" where
  "adj_offsets =
     concat (map (\<lambda>a. concat (map (\<lambda>b. map (\<lambda>c. (a, b, c)) [-1, 0, 1]) [-1, 0, 1])) [-1, 0, 1])"

text \<open>
  Lines 557 to 574: what one neighbour of the coarse cell \<open>(i, j, k)\<close> adds to the fine
  grid. \<^verbatim>\<open>std::pow(2.0, n)\<close> at the integers 1, 2, 3 is the exact power of two.
\<close>

definition interpolate_adj ::
  "idx_t \<Rightarrow> idx_t \<Rightarrow> idx_t \<Rightarrow> real_t \<Rightarrow> idx_t \<Rightarrow> idx_t \<Rightarrow> idx_t \<Rightarrow> real_t list \<Rightarrow>
   idx_t \<times> idx_t \<times> idx_t \<Rightarrow> real_t list option" where
  "interpolate_adj n_coarse_x n_coarse_y n_coarse_z coarse_grid_val fi fj fk a adj =
     (case adj of (i_adj, j_adj, k_adj) \<Rightarrow>
      let n_fine_x = n_coarse_x * 2; n_fine_y = n_coarse_y * 2; n_fine_z = n_coarse_z * 2;
          fine_grid_loc = H_INDEX (fi + i_adj) (fj + j_adj) (fk + k_adj) n_fine_x n_fine_y n_fine_z;
          coarse_grid_loc =
            H_INDEX (fi + i_adj) (fj + j_adj) (fk + k_adj) (n_coarse_x * 2) (n_coarse_y * 2)
              (n_coarse_z * 2)
      in
        if i_adj = 0 \<and> j_adj = 0 \<and> k_adj = 0 then
          do { x \<leftarrow> rd a fine_grid_loc; wr a fine_grid_loc (x + coarse_grid_val) }
        else if fine_grid_loc = coarse_grid_loc then
          (let divisor = 2 ^ nat (\<bar>i_adj\<bar> + \<bar>j_adj\<bar> + \<bar>k_adj\<bar>) in
           do { x \<leftarrow> rd a fine_grid_loc; wr a fine_grid_loc (x + coarse_grid_val / divisor) })
        else Some a)"

text \<open>\<^verbatim>\<open>_interpolateCoarse2fine\<close> on a hierarchy (lines 528 to 577).\<close>

definition interpolate_h :: "FASMultigrid \<Rightarrow> fas_heirarchy_t \<Rightarrow> idx_t \<Rightarrow> fas_heirarchy_t option" where
  "interpolate_h s grid_heirarchy coarse_depth =
     (let fine_idx = dIdx s (coarse_depth + 1); coarse_idx = dIdx s coarse_depth in
      do {
        n_coarse_x \<leftarrow> rd (nx_h s) coarse_idx;
        n_coarse_y \<leftarrow> rd (ny_h s) coarse_idx;
        n_coarse_z \<leftarrow> rd (nz_h s) coarse_idx;
        coarse_grid \<leftarrow> rd grid_heirarchy coarse_idx;
        fine_grid \<leftarrow> rd grid_heirarchy fine_idx;
        zeroed \<leftarrow> zeroGrid fine_grid;
        a \<leftarrow> foldM (\<lambda>a (i, j, k).
                 do {
                   coarse_grid_val \<leftarrow>
                     rd (arr coarse_grid) (H_INDEX i j k n_coarse_x n_coarse_y n_coarse_z);
                   foldM
                     (interpolate_adj n_coarse_x n_coarse_y n_coarse_z coarse_grid_val (i * 2)
                        (j * 2) (k * 2))
                     a adj_offsets
                 })
               (arr zeroed) (FAS_LOOP3_N n_coarse_x n_coarse_y n_coarse_z);
        wr grid_heirarchy fine_idx (zeroed\<lparr>arr := a\<rparr>)
      })"

definition interpolateCoarse2fine :: "FASMultigrid \<Rightarrow> href \<Rightarrow> idx_t \<Rightarrow> FASMultigrid option" where
  "interpolateCoarse2fine s r coarse_depth =
     do { gh \<leftarrow> load s r; gh' \<leftarrow> interpolate_h s gh coarse_depth; store s r gh' }"

text \<open>The sites of the grid at \<open>depth_idx\<close>, with their linear index, in loop order.\<close>

definition sites_of :: "idx_t \<Rightarrow> idx_t \<Rightarrow> idx_t \<Rightarrow> (idx_t \<times> idx_t \<times> idx_t \<times> idx_t) list" where
  "sites_of n1 n2 n3 = map (\<lambda>(i, j, k). (i, j, k, H_INDEX i j k n1 n2 n3)) (FAS_LOOP3_N n1 n2 n3)"

definition sites_at :: "FASMultigrid \<Rightarrow> idx_t \<Rightarrow> (idx_t \<times> idx_t \<times> idx_t \<times> idx_t) list option" where
  "sites_at s depth_idx =
     do {
       n1 \<leftarrow> rd (nx_h s) depth_idx;
       n2 \<leftarrow> rd (ny_h s) depth_idx;
       n3 \<leftarrow> rd (nz_h s) depth_idx;
       Some (sites_of n1 n2 n3)
     }"

definition evaluateEllipticEquation ::
  "host \<Rightarrow> FASMultigrid \<Rightarrow> href \<Rightarrow> idx_t \<Rightarrow> idx_t \<Rightarrow> FASMultigrid option" where
  "evaluateEllipticEquation h s result_h eqn_id depth =
     (let depth_idx = dIdx s depth in
      do {
        sites \<leftarrow> sites_at s depth_idx;
        gh \<leftarrow> load s result_h;
        result \<leftarrow> rd gh depth_idx;
        foldM (\<lambda>s (i, j, k, idx).
            do {
              v \<leftarrow> evaluateEllipticEquationPt h s eqn_id depth_idx i j k;
              poke s result_h depth_idx idx v
            })
          s sites
      })"

definition computeResidual ::
  "host \<Rightarrow> FASMultigrid \<Rightarrow> href \<Rightarrow> idx_t \<Rightarrow> idx_t \<Rightarrow> FASMultigrid option" where
  "computeResidual h s residual_h eqn_id depth =
     (let depth_idx = dIdx s depth in
      do {
        gh \<leftarrow> load s residual_h;
        residual \<leftarrow> rd gh depth_idx;
        coarse_src \<leftarrow> rd2 (coarse_src_h s) eqn_id depth_idx;
        s1 \<leftarrow> evaluateEllipticEquation h s residual_h eqn_id depth;
        foldM (\<lambda>s (i, j, k, idx).
            do {
              c \<leftarrow> peek s (Coarse_src_h eqn_id) depth_idx idx;
              r \<leftarrow> peek s residual_h depth_idx idx;
              poke s residual_h depth_idx idx (c - r)
            })
          s1 (sites_of (nx residual) (ny residual) (nz residual))
      })"

definition getMaxResidual :: "host \<Rightarrow> FASMultigrid \<Rightarrow> idx_t \<Rightarrow> idx_t \<Rightarrow> real_t option" where
  "getMaxResidual h s eqn_id depth =
     (let depth_idx = dIdx s depth in
      do {
        sites \<leftarrow> sites_at s depth_idx;
        coarse_src \<leftarrow> rd2 (coarse_src_h s) eqn_id depth_idx;
        foldM (\<lambda>max_residual (i, j, k, idx).
            do {
              c \<leftarrow> rd (arr coarse_src) idx;
              f \<leftarrow> evaluateEllipticEquationPt h s eqn_id depth_idx i j k;
              let current_residual = \<bar>c - f\<bar>;
              Some (if current_residual > max_residual then current_residual else max_residual)
            })
          0 sites
      })"

definition getMaxResidualAllEqs :: "host \<Rightarrow> FASMultigrid \<Rightarrow> idx_t \<Rightarrow> real_t option" where
  "getMaxResidualAllEqs h s depth =
     foldM (\<lambda>max_for_all eqn_id.
         do { r \<leftarrow> getMaxResidual h s eqn_id depth; Some (max max_for_all r) })
       0 (idx_range (u_n s))"

definition computeCoarseRestrictions ::
  "host \<Rightarrow> FASMultigrid \<Rightarrow> idx_t \<Rightarrow> idx_t \<Rightarrow> FASMultigrid option" where
  "computeCoarseRestrictions h s eqn_id fine_depth =
     do {
       s1 \<leftarrow> restrictFine2coarse s (U_h eqn_id) fine_depth;
       s2 \<leftarrow> computeResidual h s1 (Tmp_h eqn_id) eqn_id fine_depth;
       s3 \<leftarrow> restrictFine2coarse s2 (Tmp_h eqn_id) fine_depth;
       s4 \<leftarrow> evaluateEllipticEquation h s3 (Coarse_src_h eqn_id) eqn_id (fine_depth - 1);
       let coarse_idx = dIdx s4 (fine_depth - 1);
       sites \<leftarrow> sites_at s4 coarse_idx;
       coarse_src \<leftarrow> rd2 (coarse_src_h s4) eqn_id coarse_idx;
       tmp \<leftarrow> rd2 (tmp_h s4) eqn_id coarse_idx;
       foldM (\<lambda>s (i, j, k, idx).
           do {
             c \<leftarrow> peek s (Coarse_src_h eqn_id) coarse_idx idx;
             t \<leftarrow> peek s (Tmp_h eqn_id) coarse_idx idx;
             poke s (Coarse_src_h eqn_id) coarse_idx idx (c + t)
           })
         s4 sites
     }"

definition changeApproximateSolutionToError ::
  "FASMultigrid \<Rightarrow> href \<Rightarrow> href \<Rightarrow> idx_t \<Rightarrow> FASMultigrid option" where
  "changeApproximateSolutionToError s appx_to_err_h exact_soln_h depth =
     (let depth_idx = dIdx s depth in
      do {
        sites \<leftarrow> sites_at s depth_idx;
        ah \<leftarrow> load s appx_to_err_h;
        appx_to_err \<leftarrow> rd ah depth_idx;
        eh \<leftarrow> load s exact_soln_h;
        exact_soln \<leftarrow> rd eh depth_idx;
        foldM (\<lambda>s (i, j, k, idx).
            do {
              e \<leftarrow> peek s exact_soln_h depth_idx idx;
              a \<leftarrow> peek s appx_to_err_h depth_idx idx;
              poke s appx_to_err_h depth_idx idx (e - a)
            })
          s sites
      })"

definition correctFineFromCoarseErr_Err2Appx ::
  "FASMultigrid \<Rightarrow> href \<Rightarrow> href \<Rightarrow> idx_t \<Rightarrow> FASMultigrid option" where
  "correctFineFromCoarseErr_Err2Appx s err2appx_h appx_soln_h fine_depth =
     (let coarse_depth = fine_depth - 1; fine_depth_idx = dIdx s fine_depth in
      do {
        sites \<leftarrow> sites_at s fine_depth_idx;
        s1 \<leftarrow> interpolateCoarse2fine s err2appx_h coarse_depth;
        eh \<leftarrow> load s1 err2appx_h;
        err2appx \<leftarrow> rd eh fine_depth_idx;
        ah \<leftarrow> load s1 appx_soln_h;
        appx_soln \<leftarrow> rd ah fine_depth_idx;
        foldM (\<lambda>s (i, j, k, idx).
            do {
              appx_val \<leftarrow> peek s appx_soln_h fine_depth_idx idx;
              e \<leftarrow> peek s err2appx_h fine_depth_idx idx;
              s' \<leftarrow> poke s appx_soln_h fine_depth_idx idx (appx_val + e);
              poke s' err2appx_h fine_depth_idx idx appx_val
            })
          s1 sites
      })"

text \<open>
  Modelled from the spec: \<^verbatim>\<open>_copyGrid\<close> assigns one \<^verbatim>\<open>arr_t\<close> to another, and the
  assignment operator of \<^verbatim>\<open>arr_t\<close> is not among the sources. The spec's V-cycle takes a
  snapshot of \<open>u\<close> into \<open>tmp\<close> at the coarsest depth: the grid of values is copied.
\<close>

definition copyGrid :: "FASMultigrid \<Rightarrow> idx_t \<Rightarrow> idx_t \<Rightarrow> FASMultigrid option" where
  "copyGrid s eqn_id depth =
     (let depth_idx = dIdx s depth in
      do {
        from \<leftarrow> rd2 (u_h s) eqn_id depth_idx;
        to \<leftarrow> rd2 (tmp_h s) eqn_id depth_idx;
        t' \<leftarrow> wr2 (tmp_h s) eqn_id depth_idx (to\<lparr>arr := arr from\<rparr>);
        Some (s\<lparr>tmp_h := t'\<rparr>)
      })"

definition add_atom_to_eqn :: "FASMultigrid \<Rightarrow> atom \<Rightarrow> idx_t \<Rightarrow> idx_t \<Rightarrow> FASMultigrid option" where
  "add_atom_to_eqn s atom_in molecule_id eqn_id =
     do {
       m \<leftarrow> rd2 (eqns s) eqn_id molecule_id;
       e' \<leftarrow> wr2 (eqns s) eqn_id molecule_id (add_atom m atom_in);
       Some (s\<lparr>eqns := e'\<rparr>)
     }"

definition setPolySrcAtPt ::
  "FASMultigrid \<Rightarrow> idx_t \<Rightarrow> idx_t \<Rightarrow> idx_t \<Rightarrow> idx_t \<Rightarrow> idx_t \<Rightarrow> real_t \<Rightarrow> FASMultigrid option" where
  "setPolySrcAtPt s eqn_id mol_id i j k v =
     do {
       idx \<leftarrow> pos_index s (max_depth_idx s) i j k;
       poke s (Rho_h eqn_id mol_id) (max_depth_idx s) idx v
     }"

definition initializeRhoHeirarchy :: "FASMultigrid \<Rightarrow> FASMultigrid option" where
  "initializeRhoHeirarchy s =
     foldM (\<lambda>s eqn_id.
         do {
           mn \<leftarrow> rd (molecule_n s) eqn_id;
           foldM (\<lambda>s mol_id.
               foldM (\<lambda>s depth. restrictFine2coarse s (Rho_h eqn_id mol_id) depth) s
                 (rev [min_depth s + 1..max_depth s]))
             s (idx_range mn)
         })
       s (idx_range (u_n s))"

section \<open>The smoother\<close>

text \<open>
  Above the evaluators a call has four outcomes. It returns (\<open>Ok\<close>), it reads or writes
  outside an array or divides by zero (\<open>Fault\<close>: the model does not follow the run any
  further, and says nothing of what the code does from there), it leaves by \<^verbatim>\<open>throw -1\<close>
  (\<open>Threw\<close>), or it never returns: the functions that contain the loop of
  \<^verbatim>\<open>_jacobianRelax\<close> have type \<open>'a result option\<close>, and \<open>None\<close> is the run that does not end.
\<close>

datatype 'a result = Ok 'a | Fault | Threw int

definition lift :: "'a option \<Rightarrow> 'a result option" where
  "lift x = (case x of None \<Rightarrow> Some Fault | Some v \<Rightarrow> Some (Ok v))"

definition bindR :: "'a result option \<Rightarrow> ('a \<Rightarrow> 'b result option) \<Rightarrow> 'b result option" where
  "bindR m f =
     (case m of
        None \<Rightarrow> None
      | Some Fault \<Rightarrow> Some Fault
      | Some (Threw e) \<Rightarrow> Some (Threw e)
      | Some (Ok x) \<Rightarrow> f x)"

fun foldR :: "('s \<Rightarrow> 'a \<Rightarrow> 's result option) \<Rightarrow> 's \<Rightarrow> 'a list \<Rightarrow> 's result option" where
  "foldR f s [] = Some (Ok s)"
| "foldR f s (x # xs) = bindR (f s x) (\<lambda>s'. foldR f s' xs)"

text \<open>
  \<^verbatim>\<open>u[idx] = f(u[idx], damping_v[idx])\<close> at every site of every equation: the two loops of
  \<^verbatim>\<open>_getLambda\<close> that change \<open>u\<close> (lines 743 to 752 and 776 to 786).
\<close>

definition update_sites ::
  "(real_t \<Rightarrow> real_t \<Rightarrow> real_t) \<Rightarrow> real_t list \<Rightarrow> real_t list \<Rightarrow>
   (idx_t \<times> idx_t \<times> idx_t \<times> idx_t) list \<Rightarrow> real_t list option" where
  "update_sites f v u sites =
     foldM (\<lambda>u (i, j, k, idx). do { x \<leftarrow> rd u idx; y \<leftarrow> rd v idx; wr u idx (f x y) }) u sites"

definition update_u ::
  "(real_t \<Rightarrow> real_t \<Rightarrow> real_t) \<Rightarrow> FASMultigrid \<Rightarrow> idx_t \<Rightarrow>
   (idx_t \<times> idx_t \<times> idx_t \<times> idx_t) list \<Rightarrow> FASMultigrid option" where
  "update_u f s depth_idx sites =
     foldM (\<lambda>s eqn_id.
         do {
           u \<leftarrow> rd2 (u_h s) eqn_id depth_idx;
           damping_v \<leftarrow> rd2 (damping_v_h s) eqn_id depth_idx;
           a \<leftarrow> update_sites f (arr damping_v) (arr u) sites;
           u' \<leftarrow> wr2 (u_h s) eqn_id depth_idx (u\<lparr>arr := a\<rparr>);
           Some (s\<lparr>u_h := u'\<rparr>)
         })
       s (idx_range (u_n s))"

text \<open>The sum over the equations and the sites of \<open>(F - coarse_src)\<^sup>2\<close> (lines 758 to 771).\<close>

definition residual_sum ::
  "host \<Rightarrow> FASMultigrid \<Rightarrow> idx_t \<Rightarrow> (idx_t \<times> idx_t \<times> idx_t \<times> idx_t) list \<Rightarrow> real_t option" where
  "residual_sum h s depth_idx sites =
     foldM (\<lambda>sum eqn_id.
         do {
           coarse_src \<leftarrow> rd2 (coarse_src_h s) eqn_id depth_idx;
           foldM (\<lambda>sum (i, j, k, idx).
               do {
                 f \<leftarrow> evaluateEllipticEquationPt h s eqn_id depth_idx i j k;
                 c \<leftarrow> rd (arr coarse_src) idx;
                 let temp = f - c;
                 Some (sum + temp * temp)
               })
             sum sites
         })
       0 (idx_range (u_n s))"

text \<open>The loop \<^verbatim>\<open>for (s = 0; s < 100; s++)\<close> of \<^verbatim>\<open>_getLambda\<close>, by the trials that remain.\<close>

fun lambda_trials ::
  "host \<Rightarrow> idx_t \<Rightarrow> real_t \<Rightarrow> (idx_t \<times> idx_t \<times> idx_t \<times> idx_t) list \<Rightarrow> nat \<Rightarrow> FASMultigrid \<Rightarrow>
   (bool \<times> FASMultigrid) option" where
  "lambda_trials h depth_idx nrm sites 0 s = Some (False, s)"
| "lambda_trials h depth_idx nrm sites (Suc n) s =
     do {
       sum \<leftarrow> residual_sum h s depth_idx sites;
       if sum \<le> nrm then Some (True, s)
       else
         do {
           s' \<leftarrow> update_u (\<lambda>x y. x - 0.01 * y) s depth_idx sites;
           lambda_trials h depth_idx nrm sites n s'
         }
     }"

definition getLambda ::
  "host \<Rightarrow> FASMultigrid \<Rightarrow> idx_t \<Rightarrow> real_t \<Rightarrow> (bool \<times> FASMultigrid) option" where
  "getLambda h s depth nrm =
     (let depth_idx = dIdx s depth in
      do {
        sites \<leftarrow> sites_at s depth_idx;
        s1 \<leftarrow> update_u (\<lambda>x y. x + 1.0 * y) s depth_idx sites;
        lambda_trials h depth_idx nrm sites 100 s1
      })"

text \<open>Lines 804 to 808: \<open>damping_v\<close> starts at zero.\<close>

definition jacobian_init ::
  "FASMultigrid \<Rightarrow> idx_t \<Rightarrow> (idx_t \<times> idx_t \<times> idx_t \<times> idx_t) list \<Rightarrow> FASMultigrid option" where
  "jacobian_init s depth_idx sites =
     foldM (\<lambda>s (i, j, k, idx).
         foldM (\<lambda>s eqn_id. poke s (Damping_v_h eqn_id) depth_idx idx 0.0) s (idx_range (u_n s)))
       s sites"

text \<open>
  Lines 817 to 835: one sweep, which updates \<open>damping_v\<close> in place. Where the coefficient
  \<^verbatim>\<open>coef_b\<close> of a site is zero, line 833 divides by zero and the sweep is not followed.
\<close>

definition jacobian_sweep ::
  "host \<Rightarrow> FASMultigrid \<Rightarrow> idx_t \<Rightarrow> (idx_t \<times> idx_t \<times> idx_t \<times> idx_t) list \<Rightarrow> FASMultigrid option" where
  "jacobian_sweep h s depth_idx sites =
     foldM (\<lambda>s eqn_id.
         do {
           damping_v \<leftarrow> rd2 (damping_v_h s) eqn_id depth_idx;
           jac_rhs \<leftarrow> rd2 (jac_rhs_h s) eqn_id depth_idx;
           foldM (\<lambda>s (i, j, k, idx).
               do {
                 (coef_a, coef_b) \<leftarrow>
                   evaluateIterationForJacEquation h s eqn_id depth_idx (0, 0) i j k eqn_id;
                 temp \<leftarrow> foldM (\<lambda>temp var_id.
                     if var_id \<noteq> eqn_id then
                       do {
                         d \<leftarrow> evaluateDerEllipticEquation h s eqn_id depth_idx i j k var_id;
                         Some (temp + d)
                       }
                     else Some temp)
                   0 (idx_range (u_n s));
                 r \<leftarrow> peek s (Jac_rhs_h eqn_id) depth_idx idx;
                 v \<leftarrow> rdiv (coef_a - r + temp) (- coef_b);
                 poke s (Damping_v_h eqn_id) depth_idx idx v
               })
             s sites
         })
       s (idx_range (u_n s))"

text \<open>Lines 838 to 850: the norm of the linearized residual after the sweep.\<close>

definition jacobian_norm ::
  "host \<Rightarrow> FASMultigrid \<Rightarrow> idx_t \<Rightarrow> (idx_t \<times> idx_t \<times> idx_t \<times> idx_t) list \<Rightarrow> real_t option" where
  "jacobian_norm h s depth_idx sites =
     foldM (\<lambda>norm_r (i, j, k, idx).
         foldM (\<lambda>norm_r eqn_id.
             do {
               jac_rhs \<leftarrow> rd2 (jac_rhs_h s) eqn_id depth_idx;
               t \<leftarrow> foldM (\<lambda>temp var_id.
                   do {
                     d \<leftarrow> evaluateDerEllipticEquation h s eqn_id depth_idx i j k var_id;
                     Some (temp + d)
                   })
                 0 (idx_range (u_n s));
               r \<leftarrow> rd (arr jac_rhs) idx;
               let temp = t - r;
               Some (norm_r + temp * temp)
             })
           norm_r (idx_range (u_n s)))
       0 sites"

text \<open>
  The \<^verbatim>\<open>while\<close> loop of \<^verbatim>\<open>_jacobianRelax\<close> (lines 810 to 862), on the solver, \<^verbatim>\<open>cnt\<close>
  and \<^verbatim>\<open>norm_r\<close>. \<^verbatim>\<open>norm_pre\<close> is set to zero at the head of every round and never
  assigned again. The initial \<^verbatim>\<open>norm_r = 1e100\<close> is modelled as \<open>10 ^ 100\<close>.
\<close>

partial_function (option) jacobianRelax_loop ::
  "host \<Rightarrow> idx_t \<Rightarrow> (idx_t \<times> idx_t \<times> idx_t \<times> idx_t) list \<Rightarrow> real_t \<Rightarrow> real_t \<Rightarrow> idx_t \<Rightarrow>
   FASMultigrid \<Rightarrow> idx_t \<Rightarrow> real_t \<Rightarrow> (bool \<times> FASMultigrid) result option" where
  "jacobianRelax_loop h depth_idx sites nrm C p s cnt norm_r =
     (if norm_r \<ge> min (pow h nrm (real_of_int (p + 1)) * C) nrm then
        (let norm_pre = 0 in
         case jacobian_sweep h s depth_idx sites of
           None \<Rightarrow> Some Fault
         | Some s1 \<Rightarrow>
             (case jacobian_norm h s1 depth_idx sites of
                None \<Rightarrow> Some Fault
              | Some norm_r1 \<Rightarrow>
                  if cnt + 1 > 500 \<and> norm_r1 > norm_pre then Some (Ok (False, s1))
                  else jacobianRelax_loop h depth_idx sites nrm C p s1 (cnt + 1) norm_r1))
      else Some (Ok (True, s)))"

declare jacobianRelax_loop.simps [code]

definition jacobianRelax ::
  "host \<Rightarrow> FASMultigrid \<Rightarrow> idx_t \<Rightarrow> real_t \<Rightarrow> real_t \<Rightarrow> idx_t \<Rightarrow>
   (bool \<times> FASMultigrid) result option" where
  "jacobianRelax h s depth nrm C p =
     (let depth_idx = dIdx s depth in
      case sites_at s depth_idx of
        None \<Rightarrow> Some Fault
      | Some sites \<Rightarrow>
          (case jacobian_init s depth_idx sites of
             None \<Rightarrow> Some Fault
           | Some s0 \<Rightarrow> jacobianRelax_loop h depth_idx sites nrm C p s0 0 (10 ^ 100)))"

text \<open>The loop of \<^verbatim>\<open>_singularityExists\<close> (lines 874 to 878), with its early return.\<close>

fun singularity_scan :: "real_t list \<Rightarrow> idx_t list \<Rightarrow> bool option" where
  "singularity_scan u [] = Some False"
| "singularity_scan u (i # is) =
     do {
       x \<leftarrow> rd u i;
       x0 \<leftarrow> rd u 0;
       if sign x * sign x0 < 0 then Some True else singularity_scan u is
     }"

definition singularityExists :: "FASMultigrid \<Rightarrow> idx_t \<Rightarrow> idx_t \<Rightarrow> bool option" where
  "singularityExists s eqn_id depth =
     (let depth_idx = dIdx s depth in
      do {
        n1 \<leftarrow> rd (nx_h s) depth_idx;
        n2 \<leftarrow> rd (ny_h s) depth_idx;
        n3 \<leftarrow> rd (nz_h s) depth_idx;
        u \<leftarrow> rd2 (u_h s) eqn_id depth_idx;
        singularity_scan (arr u) [1..n1 * n2 * n3 - 1]
      })"

text \<open>Lines 903 to 924: the norm of the residual, and \<open>jac_rhs = - residual\<close>.\<close>

definition relax_norm ::
  "host \<Rightarrow> FASMultigrid \<Rightarrow> idx_t \<Rightarrow> (idx_t \<times> idx_t \<times> idx_t \<times> idx_t) list \<Rightarrow>
   (real_t \<times> FASMultigrid) option" where
  "relax_norm h s depth_idx sites =
     foldM (\<lambda>(nrm, s) eqn_id.
         do {
           jac_rhs \<leftarrow> rd2 (jac_rhs_h s) eqn_id depth_idx;
           coarse_src \<leftarrow> rd2 (coarse_src_h s) eqn_id depth_idx;
           foldM (\<lambda>(nrm, s) (i, j, k, idx).
               do {
                 f \<leftarrow> evaluateEllipticEquationPt h s eqn_id depth_idx i j k;
                 c \<leftarrow> peek s (Coarse_src_h eqn_id) depth_idx idx;
                 let temp = f - c;
                 s' \<leftarrow> poke s (Jac_rhs_h eqn_id) depth_idx idx (- temp);
                 Some (nrm + temp * temp, s')
               })
             (nrm, s) sites
         })
       (0.0, s) (idx_range (u_n s))"

text \<open>
  One round of the loop of \<^verbatim>\<open>_relaxSolution_GaussSeidel\<close> (lines 897 to 938), and how the
  round ends: with \<^verbatim>\<open>break\<close>, at the end of the body, or with \<^verbatim>\<open>throw -1\<close>.
\<close>

datatype round_end = Break FASMultigrid | Continue FASMultigrid | Throw int | Faulty

definition relax_round :: "host \<Rightarrow> idx_t \<Rightarrow> FASMultigrid \<Rightarrow> round_end option" where
  "relax_round h depth s =
     (let depth_idx = dIdx s depth in
      case sites_at s depth_idx of
        None \<Rightarrow> Some Faulty
      | Some sites \<Rightarrow>
          (case getMaxResidualAllEqs h s depth of
             None \<Rightarrow> Some Faulty
           | Some res \<Rightarrow>
               if res < relaxation_tolerance s then Some (Break s)
               else if relax_scheme s = inexact_newton
                   \<or> relax_scheme s = inexact_newton_constrained then
                 (case relax_norm h s depth_idx sites of
                    None \<Rightarrow> Some Faulty
                  | Some (nrm, s1) \<Rightarrow>
                      (case jacobianRelax h s1 depth nrm 1 0 of
                         None \<Rightarrow> None
                       | Some Fault \<Rightarrow> Some Faulty
                       | Some (Threw e) \<Rightarrow> Some (Throw e)
                       | Some (Ok (converged, s2)) \<Rightarrow>
                           if converged = False then Some (Break s2)
                           else
                             (case getLambda h s2 depth nrm of
                                None \<Rightarrow> Some Faulty
                              | Some (found, s3) \<Rightarrow>
                                  if found = False then Some (Throw (-1))
                                  else Some (Continue s3))))
               else Some (Continue s)))"

fun relax_rounds :: "host \<Rightarrow> idx_t \<Rightarrow> nat \<Rightarrow> FASMultigrid \<Rightarrow> FASMultigrid result option" where
  "relax_rounds h depth 0 s = Some (Ok s)"
| "relax_rounds h depth (Suc n) s =
     (case relax_round h depth s of
        None \<Rightarrow> None
      | Some Faulty \<Rightarrow> Some Fault
      | Some (Throw e) \<Rightarrow> Some (Threw e)
      | Some (Break s') \<Rightarrow> Some (Ok s')
      | Some (Continue s') \<Rightarrow> relax_rounds h depth n s')"

definition relaxSolution_GaussSeidel ::
  "host \<Rightarrow> FASMultigrid \<Rightarrow> idx_t \<Rightarrow> idx_t \<Rightarrow> FASMultigrid result option" where
  "relaxSolution_GaussSeidel h s depth max_iterations = relax_rounds h depth (nat max_iterations) s"

section \<open>The V-cycle\<close>

text \<open>
  \<^verbatim>\<open>VCycle\<close> (lines 1028 to 1068) in the order of its statements: the first smoothing at
  \<open>max_depth\<close>, then what follows it, which is the residual it prints, the downward stroke,
  the upward stroke and the last smoothing; one round of the upward stroke is a smoothing
  at \<open>coarse_depth\<close> and the correction of the finer grid that follows it.
\<close>

definition VCycle_restrict :: "host \<Rightarrow> FASMultigrid \<Rightarrow> FASMultigrid option" where
  "VCycle_restrict h s1 =
     foldM (\<lambda>s eqn_id.
         do {
           s' \<leftarrow> foldM (\<lambda>s depth. computeCoarseRestrictions h s eqn_id depth) s
                  (rev [min_depth s + 1..max_depth s]);
           copyGrid s' eqn_id (min_depth s')
         })
       s1 (idx_range (u_n s1))"

definition VCycle_correct :: "host \<Rightarrow> FASMultigrid \<Rightarrow> idx_t \<Rightarrow> FASMultigrid result option" where
  "VCycle_correct h sa coarse_depth =
     bindR (lift (getMaxResidualAllEqs h sa coarse_depth)) (\<lambda>_.
     lift (do {
       sb \<leftarrow> foldM (\<lambda>s eqn_id.
               changeApproximateSolutionToError s (Tmp_h eqn_id) (U_h eqn_id) coarse_depth)
             sa (idx_range (u_n sa));
       foldM (\<lambda>s eqn_id.
           correctFineFromCoarseErr_Err2Appx s (Tmp_h eqn_id) (U_h eqn_id) (coarse_depth + 1))
         sb (idx_range (u_n sb))
     }))"

definition VCycle_up :: "host \<Rightarrow> FASMultigrid \<Rightarrow> idx_t \<Rightarrow> FASMultigrid result option" where
  "VCycle_up h s coarse_depth =
     bindR (relaxSolution_GaussSeidel h s coarse_depth (max_relax_iters s)) (\<lambda>sa.
     VCycle_correct h sa coarse_depth)"

definition VCycle_end :: "host \<Rightarrow> FASMultigrid \<Rightarrow> FASMultigrid result option" where
  "VCycle_end h s4 = bindR (lift (getMaxResidualAllEqs h s4 (max_depth s4))) (\<lambda>_. Some (Ok s4))"

definition VCycle_last :: "host \<Rightarrow> FASMultigrid \<Rightarrow> FASMultigrid result option" where
  "VCycle_last h s3 =
     bindR (relaxSolution_GaussSeidel h s3 (max_depth s3) (max_relax_iters s3)) (VCycle_end h)"

definition VCycle_strokes :: "host \<Rightarrow> FASMultigrid \<Rightarrow> FASMultigrid result option" where
  "VCycle_strokes h s1 =
     bindR (lift (getMaxResidualAllEqs h s1 (max_depth s1))) (\<lambda>_.
     bindR (lift (VCycle_restrict h s1)) (\<lambda>s2.
     bindR (foldR (VCycle_up h) s2 [min_depth s2..max_depth s2 - 1]) (VCycle_last h)))"

definition VCycle :: "host \<Rightarrow> FASMultigrid \<Rightarrow> FASMultigrid result option" where
  "VCycle h s =
     bindR (relaxSolution_GaussSeidel h s (max_depth s) (max_relax_iters s)) (VCycle_strokes h)"

text \<open>
  Of what the solver prints, the model keeps the lines of the summary that closes
  \<^verbatim>\<open>VCycles\<close>, as a list of messages; the residuals that the progress lines print are
  evaluated, the lines themselves are not kept.

  Modelled from the spec: the reductions \<^verbatim>\<open>avg\<close>, \<^verbatim>\<open>min\<close> and \<^verbatim>\<open>max\<close> of \<^verbatim>\<open>arr_t\<close> are not
  among the sources; the spec's Grid has the reductions average, min and max. A grid without
  cells has no statistics.
\<close>

datatype message =
  Crosses_zero idx_t | Stays_signed idx_t | Avg_min_max "(real_t \<times> real_t \<times> real_t) option"

definition arr_stats :: "arr_t \<Rightarrow> (real_t \<times> real_t \<times> real_t) option" where
  "arr_stats g =
     (case arr g of
        [] \<Rightarrow> None
      | x # xs \<Rightarrow>
          if pts g = 0 then None
          else Some (sum_list (x # xs) / real_of_int (pts g), fold min xs x, fold max xs x))"

definition summary_eqn :: "FASMultigrid \<Rightarrow> message list \<Rightarrow> idx_t \<Rightarrow> message list option" where
  "summary_eqn s out eqn_id =
     do {
       sing \<leftarrow> singularityExists s eqn_id (max_depth s);
       u \<leftarrow> rd2 (u_h s) eqn_id (max_depth_idx s);
       Some (out @ [if sing then Crosses_zero eqn_id else Stays_signed eqn_id,
                    Avg_min_max (arr_stats u)])
     }"

definition VCycles ::
  "host \<Rightarrow> FASMultigrid \<Rightarrow> idx_t \<Rightarrow> (FASMultigrid \<times> message list) result option" where
  "VCycles h s num_cycles =
     bindR (foldR (\<lambda>s cycle. VCycle h s) s (idx_range num_cycles)) (\<lambda>s1.
     bindR (relaxSolution_GaussSeidel h s1 (max_depth s1) 10) (\<lambda>s2.
     bindR (lift (getMaxResidualAllEqs h s2 (max_depth s2))) (\<lambda>_.
     bindR (lift (foldM (summary_eqn s2) [] (idx_range (u_n s2)))) (\<lambda>out.
     Some (Ok (s2, out))))))"

section \<open>Notions used in the statements and proofs\<close>

subsection \<open>Grids for the examples\<close>

definition grid :: "idx_t \<Rightarrow> idx_t \<Rightarrow> idx_t \<Rightarrow> real_t list \<Rightarrow> arr_t" where
  "grid n1 n2 n3 xs = \<lparr>nx = n1, ny = n2, nz = n3, pts = n1 * n2 * n3, arr = xs\<rparr>"


subsection \<open>Examples for the evaluators\<close>

text \<open>
  A second-order Laplacian on a periodic grid of spacing \<open>1 / nx\<close>, as an instance of the
  external stencil, and a host with it.
\<close>

definition lap_o2 :: "idx_t \<Rightarrow> idx_t \<Rightarrow> idx_t \<Rightarrow> idx_t \<Rightarrow> idx_t \<Rightarrow> idx_t \<Rightarrow> arr_t \<Rightarrow> real_t" where
  "lap_o2 i j k n1 n2 n3 g =
     (let v = (\<lambda>a b c. arr g ! nat (H_INDEX a b c n1 n2 n3)); dx = 1 / real_of_int n1 in
      (v (i + 1) j k + v (i - 1) j k + v i (j + 1) k + v i (j - 1) k + v i j (k + 1)
         + v i j (k - 1) - 6 * v i j k) / (dx * dx))"

definition host_o2 :: host where
  "host_o2 = \<lparr>NX = 2, NY = 1, NZ = 1, H_LEN_FRAC = 1, STENCIL_ORDER = 2,
     pow = (\<lambda>x y. x ^ nat \<lfloor>y\<rfloor>),
     derivative = (\<lambda>i j k n1 n2 n3 d g. 0),
     double_derivative = (\<lambda>i j k n1 n2 n3 d1 d2 g. 0),
     laplacian = lap_o2\<rparr>"

text \<open>The molecule with the single atom \<open>Lap{u_id = 1}\<close>, and a solver with two equations.\<close>

definition lap_u1 :: molecule where
  "lap_u1 = \<lparr>atoms = [\<lparr>atype = 11, u_id = 1, avalue = 0\<rparr>], atom_n = 1, const_coef = 1\<rparr>"

definition two_eqn_solver :: FASMultigrid where
  "two_eqn_solver =
     \<lparr>u_h = [[grid 2 1 1 [0, 0]], [grid 2 1 1 [0, 0]]],
      tmp_h = [[grid 2 1 1 [0, 0]], [grid 2 1 1 [0, 0]]],
      coarse_src_h = [[grid 2 1 1 [0, 0]], [grid 2 1 1 [0, 0]]],
      jac_rhs_h = [[grid 2 1 1 [0, 0]], [grid 2 1 1 [0, 0]]],
      damping_v_h = [[grid 2 1 1 [0, 0]], [grid 2 1 1 [1, 0]]],
      rho_h = [[[grid 2 1 1 [0, 0]]], [[grid 2 1 1 [0, 0]]]],
      u_n = 2, molecule_n = [1, 1], nx_h = [2], ny_h = [1], nz_h = [1],
      relaxation_tolerance = 1 / 10, max_depth = 1, max_depth_idx = 0, min_depth = 1,
      min_depth_idx = 0, total_depths = 1, max_relax_iters = 10, relax_scheme = inexact_newton,
      eqns = [[lap_u1], [lap_u1]]\<rparr>"

subsection \<open>The runs of the Jacobian relaxation\<close>

text \<open>
  The bound that the loop of \<^verbatim>\<open>_jacobianRelax\<close> compares the norm with, the solver after \<open>n\<close>
  sweeps, and the value of \<^verbatim>\<open>norm_r\<close> at the loop test that follows \<open>n\<close> sweeps, when it
  was \<open>r0\<close> at the first one.
\<close>

definition threshold :: "host \<Rightarrow> real_t \<Rightarrow> real_t \<Rightarrow> idx_t \<Rightarrow> real_t" where
  "threshold h S C p = min (pow h S (real_of_int (p + 1)) * C) S"

fun jacobian_sweeps ::
  "host \<Rightarrow> idx_t \<Rightarrow> (idx_t \<times> idx_t \<times> idx_t \<times> idx_t) list \<Rightarrow> nat \<Rightarrow> FASMultigrid \<Rightarrow>
   FASMultigrid option" where
  "jacobian_sweeps h depth_idx sites 0 s = Some s"
| "jacobian_sweeps h depth_idx sites (Suc n) s =
     (case jacobian_sweep h s depth_idx sites of
        None \<Rightarrow> None
      | Some s1 \<Rightarrow> jacobian_sweeps h depth_idx sites n s1)"

fun sweep_norm ::
  "host \<Rightarrow> idx_t \<Rightarrow> (idx_t \<times> idx_t \<times> idx_t \<times> idx_t) list \<Rightarrow> real_t \<Rightarrow> nat \<Rightarrow> FASMultigrid \<Rightarrow>
   real_t option" where
  "sweep_norm h depth_idx sites r0 0 s = Some r0"
| "sweep_norm h depth_idx sites r0 (Suc n) s =
     (case jacobian_sweep h s depth_idx sites of
        None \<Rightarrow> None
      | Some s1 \<Rightarrow>
          (case jacobian_norm h s1 depth_idx sites of
             None \<Rightarrow> None
           | Some r1 \<Rightarrow> sweep_norm h depth_idx sites r1 n s1))"

text \<open>
  A run of the loop that starts with \<open>cnt\<close> sweeps done: it goes on after \<open>m\<close> more sweeps,
  and it ends after \<open>n\<close> more sweeps with the given answer.
\<close>

definition goes_on ::
  "host \<Rightarrow> idx_t \<Rightarrow> (idx_t \<times> idx_t \<times> idx_t \<times> idx_t) list \<Rightarrow> real_t \<Rightarrow> idx_t \<Rightarrow> real_t \<Rightarrow>
   FASMultigrid \<Rightarrow> nat \<Rightarrow> bool" where
  "goes_on h depth_idx sites T cnt r0 s m =
     (case sweep_norm h depth_idx sites r0 m s of
        None \<Rightarrow> False
      | Some r \<Rightarrow> T \<le> r \<and> \<not> (0 < m \<and> 500 < cnt + int m \<and> 0 < r))"

definition ends_with ::
  "host \<Rightarrow> idx_t \<Rightarrow> (idx_t \<times> idx_t \<times> idx_t \<times> idx_t) list \<Rightarrow> real_t \<Rightarrow> idx_t \<Rightarrow> real_t \<Rightarrow>
   FASMultigrid \<Rightarrow> nat \<Rightarrow> bool \<Rightarrow> bool" where
  "ends_with h depth_idx sites T cnt r0 s n converged =
     (case sweep_norm h depth_idx sites r0 n s of
        None \<Rightarrow> False
      | Some r \<Rightarrow>
          if 0 < n \<and> 500 < cnt + int n \<and> 0 < r then \<not> converged
          else converged \<and> r < T)"

subsection \<open>The rounds of the smoother\<close>

text \<open>
  The solver after \<open>k\<close> rounds of the loop of \<^verbatim>\<open>_relaxSolution_GaussSeidel\<close> that all ran to
  the end of the body.
\<close>

fun continued_rounds :: "host \<Rightarrow> idx_t \<Rightarrow> nat \<Rightarrow> FASMultigrid \<Rightarrow> FASMultigrid option" where
  "continued_rounds h depth 0 s = Some s"
| "continued_rounds h depth (Suc k) s =
     (case relax_round h depth s of
        Some (Continue s') \<Rightarrow> continued_rounds h depth k s'
      | _ \<Rightarrow> None)"

text \<open>
  What the round that starts at \<open>s\<close> gets from \<^verbatim>\<open>_jacobianRelax\<close>, with the norm it passes,
  and from \<^verbatim>\<open>_getLambda\<close>; \<open>None\<close> when the round does not make the call, or when the call
  does not return.
\<close>

definition jacobian_of ::
  "host \<Rightarrow> idx_t \<Rightarrow> FASMultigrid \<Rightarrow> (real_t \<times> (bool \<times> FASMultigrid) result) option" where
  "jacobian_of h depth s =
     (case sites_at s (dIdx s depth) of
        None \<Rightarrow> None
      | Some sites \<Rightarrow>
          (case getMaxResidualAllEqs h s depth of
             None \<Rightarrow> None
           | Some res \<Rightarrow>
               if res < relaxation_tolerance s then None
               else if relax_scheme s = inexact_newton
                   \<or> relax_scheme s = inexact_newton_constrained then
                 (case relax_norm h s (dIdx s depth) sites of
                    None \<Rightarrow> None
                  | Some (nrm, s1) \<Rightarrow>
                      (case jacobianRelax h s1 depth nrm 1 0 of
                         None \<Rightarrow> None
                       | Some a \<Rightarrow> Some (nrm, a)))
               else None))"

definition lambda_of :: "host \<Rightarrow> idx_t \<Rightarrow> FASMultigrid \<Rightarrow> (bool \<times> FASMultigrid) option" where
  "lambda_of h depth s =
     (case jacobian_of h depth s of
        Some (nrm, Ok (True, s2)) \<Rightarrow> getLambda h s2 depth nrm
      | _ \<Rightarrow> None)"

text \<open>The molecule \<open>Lap{u_id = 0}\<close>.\<close>

definition lap_u0 :: molecule where
  "lap_u0 = \<lparr>atoms = [\<lparr>atype = 11, u_id = 0, avalue = 0\<rparr>], atom_n = 1, const_coef = 1\<rparr>"

subsection \<open>Examples for the transfer operators\<close>

text \<open>
  A hierarchy of two depths with an odd fine dimension: 4 x 2 x 3 above 2 x 1 x 2, the
  dimensions the constructor gives for \<^verbatim>\<open>NX = 4\<close>, \<^verbatim>\<open>NY = 2\<close>, \<^verbatim>\<open>NZ = 3\<close>.
\<close>

definition two_level :: "real_t list \<Rightarrow> real_t list \<Rightarrow> fas_heirarchy_t" where
  "two_level cs fs = [grid 2 1 2 cs, grid 4 2 3 fs]"

definition fine_ones :: "real_t list" where
  "fine_ones = replicate 24 1"

definition odd_solver :: FASMultigrid where
  "odd_solver =
     \<lparr>u_h = [two_level (replicate 4 0) fine_ones],
      tmp_h = [two_level (replicate 4 0) (replicate 24 0)],
      coarse_src_h = [two_level (replicate 4 0) (replicate 24 0)],
      jac_rhs_h = [two_level (replicate 4 0) (replicate 24 0)],
      damping_v_h = [two_level (replicate 4 0) (replicate 24 0)],
      rho_h = [[]],
      u_n = 1, molecule_n = [0], nx_h = [2, 4], ny_h = [1, 2], nz_h = [2, 3],
      relaxation_tolerance = 1 / 10, max_depth = 2, max_depth_idx = 1, min_depth = 1,
      min_depth_idx = 0, total_depths = 2, max_relax_iters = 10, relax_scheme = inexact_newton,
      eqns = [[]]\<rparr>"

subsection \<open>The shares of the coarse cells in a fine cell\<close>

text \<open>
  The share of the coarse cell \<open>i\<close> of one axis, with the offset \<open>a\<close>, in the fine cell \<open>f\<close> of
  that axis, when the coarse grid has \<open>n\<close> cells on the axis and the fine grid twice as many.
\<close>

definition axis_weight :: "idx_t \<Rightarrow> idx_t \<Rightarrow> idx_t \<Rightarrow> idx_t \<Rightarrow> real_t" where
  "axis_weight n f i a = (if (i * 2 + a) mod (n * 2) = f then 1 / 2 ^ nat \<bar>a\<bar> else 0)"

text \<open>
  What \<^verbatim>\<open>_interpolateCoarse2fine\<close> adds to the fine array for a coarse grid constant \<open>v\<close>: the
  linear index and the amount, in the order of the loops.
\<close>

definition prolong_terms :: "idx_t \<Rightarrow> idx_t \<Rightarrow> idx_t \<Rightarrow> real_t \<Rightarrow> (idx_t \<times> real_t) list" where
  "prolong_terms c1 c2 c3 v =
     concat (map (\<lambda>(i, j, k).
         map (\<lambda>(a, b, c).
             (H_INDEX (i * 2 + a) (j * 2 + b) (k * 2 + c) (c1 * 2) (c2 * 2) (c3 * 2),
              v / 2 ^ nat (\<bar>a\<bar> + \<bar>b\<bar> + \<bar>c\<bar>)))
           adj_offsets)
       (FAS_LOOP3_N c1 c2 c3))"

subsection \<open>The hierarchy of dimensions\<close>

text \<open>The dimension \<open>k\<close> depths below the finest, by the constructor's own rule.\<close>
fun dim_seq :: "idx_t \<Rightarrow> nat \<Rightarrow> idx_t" where
  "dim_seq n 0 = n"
| "dim_seq n (Suc k) = dim_seq n k sdiv 2 + dim_seq n k smod 2"

definition grid_dims :: "host \<Rightarrow> nat \<Rightarrow> nat \<Rightarrow> arr_t \<Rightarrow> bool" where
  "grid_dims h M i g \<longleftrightarrow>
     nx g = dim_seq (NX h) (M - 1 - i) \<and> ny g = dim_seq (NY h) (M - 1 - i) \<and>
     nz g = dim_seq (NZ h) (M - 1 - i) \<and> pts g = nx g * ny g * nz g"

definition row_ok :: "host \<Rightarrow> nat \<Rightarrow> nat \<Rightarrow> arr_t list \<Rightarrow> bool" where
  "row_ok h M k row \<longleftrightarrow> length row = M \<and> (\<forall>i. k \<le> i \<and> i < M \<longrightarrow> grid_dims h M i (row ! i))"

definition dims_ok :: "host \<Rightarrow> nat \<Rightarrow> nat \<Rightarrow> FASMultigrid \<Rightarrow> bool" where
  "dims_ok h M k s \<longleftrightarrow>
     length (nx_h s) = M \<and> length (ny_h s) = M \<and> length (nz_h s) = M \<and>
     (\<forall>i. k \<le> i \<and> i < M \<longrightarrow>
        nx_h s ! i = dim_seq (NX h) (M - 1 - i) \<and> ny_h s ! i = dim_seq (NY h) (M - 1 - i) \<and>
        nz_h s ! i = dim_seq (NZ h) (M - 1 - i))"

text \<open>What a round for equation e leaves alone in a hierarchy set.\<close>

definition others_kept :: "nat \<Rightarrow> 'a list \<Rightarrow> 'a list \<Rightarrow> bool" where
  "others_kept e xs ys \<longleftrightarrow> length ys = length xs \<and> (\<forall>e'. e' \<noteq> e \<longrightarrow> ys ! e' = xs ! e')"

definition depth_inv :: "host \<Rightarrow> nat \<Rightarrow> nat \<Rightarrow> nat \<Rightarrow> FASMultigrid \<Rightarrow> bool" where
  "depth_inv h M e k s \<longleftrightarrow>
     min_depth s = 1 \<and> max_depth s = int M \<and> dims_ok h M k s \<and>
     e < length (u_h s) \<and> e < length (coarse_src_h s) \<and> e < length (damping_v_h s) \<and>
     e < length (jac_rhs_h s) \<and> e < length (tmp_h s) \<and>
     row_ok h M k (u_h s ! e) \<and> row_ok h M k (coarse_src_h s ! e) \<and>
     row_ok h M k (damping_v_h s ! e) \<and> row_ok h M k (jac_rhs_h s ! e) \<and>
     row_ok h M k (tmp_h s ! e)"

definition depth_frame :: "nat \<Rightarrow> FASMultigrid \<Rightarrow> FASMultigrid \<Rightarrow> bool" where
  "depth_frame e s s' \<longleftrightarrow>
     others_kept e (u_h s) (u_h s') \<and> others_kept e (coarse_src_h s) (coarse_src_h s') \<and>
     others_kept e (damping_v_h s) (damping_v_h s') \<and>
     others_kept e (jac_rhs_h s) (jac_rhs_h s') \<and> others_kept e (tmp_h s) (tmp_h s') \<and>
     rho_h s' = rho_h s \<and> eqns s' = eqns s \<and> u_n s' = u_n s \<and> molecule_n s' = molecule_n s \<and>
     total_depths s' = total_depths s \<and> min_depth s' = min_depth s \<and> max_depth s' = max_depth s"

definition rho_inv :: "host \<Rightarrow> nat \<Rightarrow> nat \<Rightarrow> nat \<Rightarrow> nat \<Rightarrow> FASMultigrid \<Rightarrow> bool" where
  "rho_inv h M e m k s \<longleftrightarrow>
     min_depth s = 1 \<and> max_depth s = int M \<and> dims_ok h M 0 s \<and>
     e < length (rho_h s) \<and> m < length (rho_h s ! e) \<and> row_ok h M k (rho_h s ! e ! m)"

definition rho_frame :: "nat \<Rightarrow> nat \<Rightarrow> FASMultigrid \<Rightarrow> FASMultigrid \<Rightarrow> bool" where
  "rho_frame e m s s' \<longleftrightarrow>
     s' = s\<lparr>rho_h := rho_h s'\<rparr> \<and> others_kept e (rho_h s) (rho_h s') \<and>
     others_kept m (rho_h s ! e) (rho_h s' ! e)"

text \<open>All grids of a molecule's hierarchy below index m are built.\<close>

definition mols_ok :: "host \<Rightarrow> nat \<Rightarrow> nat \<Rightarrow> arr_t list list \<Rightarrow> bool" where
  "mols_ok h M m rs \<longleftrightarrow> (\<forall>m'. m' < m \<longrightarrow> row_ok h M 0 (rs ! m'))"

definition mol_inv :: "host \<Rightarrow> nat \<Rightarrow> nat \<Rightarrow> nat \<Rightarrow> nat \<Rightarrow> FASMultigrid \<Rightarrow> bool" where
  "mol_inv h M e mn m s \<longleftrightarrow>
     min_depth s = 1 \<and> max_depth s = int M \<and> total_depths s = int M \<and> dims_ok h M 0 s \<and>
     e < length (rho_h s) \<and> length (rho_h s ! e) = mn \<and> mols_ok h M m (rho_h s ! e)"

definition mol_frame :: "nat \<Rightarrow> FASMultigrid \<Rightarrow> FASMultigrid \<Rightarrow> bool" where
  "mol_frame e s s' \<longleftrightarrow> s' = s\<lparr>rho_h := rho_h s'\<rparr> \<and> others_kept e (rho_h s) (rho_h s')"

definition eqn_done :: "host \<Rightarrow> nat \<Rightarrow> idx_t list \<Rightarrow> FASMultigrid \<Rightarrow> nat \<Rightarrow> bool" where
  "eqn_done h M mns s e \<longleftrightarrow>
     row_ok h M 0 (u_h s ! e) \<and> row_ok h M 0 (coarse_src_h s ! e) \<and>
     row_ok h M 0 (damping_v_h s ! e) \<and> row_ok h M 0 (jac_rhs_h s ! e) \<and>
     row_ok h M 0 (tmp_h s ! e) \<and> length (rho_h s ! e) = nat (mns ! e) \<and>
     mols_ok h M (nat (mns ! e)) (rho_h s ! e)"

definition eqn_inv :: "host \<Rightarrow> nat \<Rightarrow> nat \<Rightarrow> idx_t list \<Rightarrow> nat \<Rightarrow> FASMultigrid \<Rightarrow> bool" where
  "eqn_inv h M U mns E s \<longleftrightarrow>
     min_depth s = 1 \<and> max_depth s = int M \<and> total_depths s = int M \<and> u_n s = int U \<and>
     molecule_n s = mns \<and> length (u_h s) = U \<and> length (coarse_src_h s) = U \<and>
     length (damping_v_h s) = U \<and> length (jac_rhs_h s) = U \<and> length (tmp_h s) = U \<and>
     length (rho_h s) = U \<and> length (eqns s) = U \<and> (0 < E \<longrightarrow> dims_ok h M 0 s) \<and>
     (\<forall>e<E. eqn_done h M mns s e)"

text \<open>The dimension at index \<open>i - 1\<close> is the ceiling of half the dimension at index \<open>i\<close>.\<close>

definition halved :: "idx_t list \<Rightarrow> idx_t \<Rightarrow> bool" where
  "halved ns i \<longleftrightarrow>
     (\<exists>n c. rd ns i = Some n \<and> rd ns (i - 1) = Some c \<and> c = \<lceil>real_of_int n / 2\<rceil>)"

text \<open>The grid exists, has the dimensions of depth \<open>d\<close>, and \<open>pts = nx * ny * nz\<close>.\<close>

definition grid_at_depth :: "FASMultigrid \<Rightarrow> idx_t \<Rightarrow> arr_t option \<Rightarrow> bool" where
  "grid_at_depth s d og \<longleftrightarrow>
     (\<exists>g. og = Some g \<and> rd (nx_h s) (dIdx s d) = Some (nx g) \<and>
          rd (ny_h s) (dIdx s d) = Some (ny g) \<and> rd (nz_h s) (dIdx s d) = Some (nz g) \<and>
          pts g = nx g * ny g * nz g)"

text \<open>
  A host for the examples: a 3 x 3 x 3 problem, stencils that return zero, and \<^verbatim>\<open>pow\<close> at
  exponents that are natural numbers.
\<close>

definition host3 :: host where
  "host3 = \<lparr>NX = 3, NY = 3, NZ = 3, H_LEN_FRAC = 1, STENCIL_ORDER = 2,
     pow = (\<lambda>x y. x ^ nat \<lfloor>y\<rfloor>),
     derivative = (\<lambda>i j k n1 n2 n3 d g. 0),
     double_derivative = (\<lambda>i j k n1 n2 n3 d1 d2 g. 0),
     laplacian = (\<lambda>i j k n1 n2 n3 g. 0)\<rparr>"

subsection \<open>An example for the summary\<close>

text \<open>
  The equation \<open>u + rho = 0\<close> for one unknown on a 3 x 1 x 1 grid at one depth, solved exactly
  by the given values of \<open>u\<close>: the molecules are \<open>Poly{u_id = 0, p = 1}\<close> and \<open>Const\<close>, and
  \<open>rho = - u\<close>.
\<close>

definition line_solver :: "real_t list \<Rightarrow> FASMultigrid" where
  "line_solver us =
     \<lparr>u_h = [[grid 3 1 1 us]],
      tmp_h = [[grid 3 1 1 [0, 0, 0]]],
      coarse_src_h = [[grid 3 1 1 [0, 0, 0]]],
      jac_rhs_h = [[grid 3 1 1 [0, 0, 0]]],
      damping_v_h = [[grid 3 1 1 [0, 0, 0]]],
      rho_h = [[[grid 3 1 1 [0, 0, 0]], [grid 3 1 1 (map uminus us)]]],
      u_n = 1, molecule_n = [2], nx_h = [3], ny_h = [1], nz_h = [1],
      relaxation_tolerance = 1 / 10, max_depth = 1, max_depth_idx = 0, min_depth = 1,
      min_depth_idx = 0, total_depths = 1, max_relax_iters = 10, relax_scheme = inexact_newton,
      eqns = [[\<lparr>atoms = [\<lparr>atype = 1, u_id = 0, avalue = 1\<rparr>], atom_n = 1, const_coef = 1\<rparr>,
               \<lparr>atoms = [\<lparr>atype = 0, u_id = 0, avalue = 0\<rparr>], atom_n = 1, const_coef = 1\<rparr>]]\<rparr>"

subsection \<open>The line search as a shift of \<open>u\<close>\<close>

text \<open>How often a loop over the sites visits the linear index \<open>L\<close>.\<close>

definition visits :: "(idx_t \<times> idx_t \<times> idx_t \<times> idx_t) list \<Rightarrow> nat \<Rightarrow> nat" where
  "visits sites L = count_list (map (\<lambda>(i, j, k, idx). idx) sites) (int L)"

text \<open>
  The array \<open>u\<close> after \<open>u[idx] += c * v[idx]\<close> at every visit of the sites, and the same on
  the grid at \<open>depth_idx\<close> of a hierarchy and on the \<open>u\<close> grids of all the equations.
\<close>

definition shift :: "real_t \<Rightarrow> (idx_t \<times> idx_t \<times> idx_t \<times> idx_t) list \<Rightarrow> real_t list \<Rightarrow> real_t list
    \<Rightarrow> real_t list" where
  "shift c sites v u = map (\<lambda>L. u ! L + c * (real (visits sites L) * v ! L)) [0..<length u]"

definition row_shift :: "real_t \<Rightarrow> (idx_t \<times> idx_t \<times> idx_t \<times> idx_t) list \<Rightarrow> nat \<Rightarrow>
    fas_heirarchy_t \<Rightarrow> fas_heirarchy_t \<Rightarrow> fas_heirarchy_t" where
  "row_shift c sites d vrow row =
     row[d := (row ! d)\<lparr>arr := shift c sites (arr (vrow ! d)) (arr (row ! d))\<rparr>]"

definition shift_rows :: "real_t \<Rightarrow> (idx_t \<times> idx_t \<times> idx_t \<times> idx_t) list \<Rightarrow> nat \<Rightarrow> nat \<Rightarrow>
    fas_heirarchy_set_t \<Rightarrow> fas_heirarchy_set_t \<Rightarrow> fas_heirarchy_set_t" where
  "shift_rows c sites d n vs us =
     map (\<lambda>e. if e < n then row_shift c sites d (vs ! e) (us ! e) else us ! e) [0..<length us]"

definition shift_u :: "real_t \<Rightarrow> (idx_t \<times> idx_t \<times> idx_t \<times> idx_t) list \<Rightarrow> nat \<Rightarrow> FASMultigrid
    \<Rightarrow> FASMultigrid" where
  "shift_u c sites d s = s\<lparr>u_h := shift_rows c sites d (nat (u_n s)) (damping_v_h s) (u_h s)\<rparr>"

text \<open>
  A solver with one unknown on a single site at one depth, given its molecules and the values
  of \<open>rho\<close> (the same for every molecule), \<open>u\<close>, \<open>damping_v\<close> and \<open>jac_rhs\<close> there; the
  molecule \<open>Poly{u_id = 0, p = 2}\<close>.
\<close>

definition square_u0 :: molecule where
  "square_u0 = \<lparr>atoms = [\<lparr>atype = 1, u_id = 0, avalue = 2\<rparr>], atom_n = 1, const_coef = 1\<rparr>"

definition point_solver ::
  "molecule list \<Rightarrow> real_t \<Rightarrow> real_t \<Rightarrow> real_t \<Rightarrow> real_t \<Rightarrow> FASMultigrid" where
  "point_solver ms rho u v rhs =
     \<lparr>u_h = [[grid 1 1 1 [u]]],
      tmp_h = [[grid 1 1 1 [0]]],
      coarse_src_h = [[grid 1 1 1 [0]]],
      jac_rhs_h = [[grid 1 1 1 [rhs]]],
      damping_v_h = [[grid 1 1 1 [v]]],
      rho_h = [map (\<lambda>m. [grid 1 1 1 [rho]]) ms],
      u_n = 1, molecule_n = [int (length ms)], nx_h = [1], ny_h = [1], nz_h = [1],
      relaxation_tolerance = 1 / 10, max_depth = 1, max_depth_idx = 0, min_depth = 1,
      min_depth_idx = 0, total_depths = 1, max_relax_iters = 10, relax_scheme = inexact_newton,
      eqns = [ms]\<rparr>"

text \<open>The molecule \<open>Const\<close>, which is the value of \<open>rho\<close> at the site.\<close>

definition rho_alone :: molecule where
  "rho_alone = \<lparr>atoms = [\<lparr>atype = 0, u_id = 0, avalue = 0\<rparr>], atom_n = 1, const_coef = 1\<rparr>"

text \<open>
  The equation \<open>Lap u + rho = 0\<close> with \<open>rho = 1\<close> on the single cell of a periodic grid at one
  depth, given the values of \<open>u\<close>, \<open>damping_v\<close>, \<open>jac_rhs\<close> and \<open>tmp\<close> there.
\<close>

definition lap_solver :: "real_t \<Rightarrow> real_t \<Rightarrow> real_t \<Rightarrow> real_t \<Rightarrow> FASMultigrid" where
  "lap_solver u v rhs t = (point_solver [lap_u0, rho_alone] 1 u v rhs)\<lparr>tmp_h := [[grid 1 1 1 [t]]]\<rparr>"

section \<open>Properties\<close>

subsection \<open>Array access within bounds, and loops\<close>

lemma rd_in [simp]: "0 \<le> i \<Longrightarrow> i < int (length xs) \<Longrightarrow> rd xs i = Some (xs ! nat i)"
  by (simp add: rd_def)

lemma wr_in [simp]: "0 \<le> i \<Longrightarrow> i < int (length xs) \<Longrightarrow> wr xs i v = Some (xs[nat i := v])"
  by (simp add: wr_def)

lemma rd2_in [simp]:
  "0 \<le> e \<Longrightarrow> e < int (length xss) \<Longrightarrow> 0 \<le> d \<Longrightarrow> d < int (length (xss ! nat e)) \<Longrightarrow>
   rd2 xss e d = Some (xss ! nat e ! nat d)"
  by (simp add: rd2_def)

lemma wr2_in [simp]:
  "0 \<le> e \<Longrightarrow> e < int (length xss) \<Longrightarrow> 0 \<le> d \<Longrightarrow> d < int (length (xss ! nat e)) \<Longrightarrow>
   wr2 xss e d v = Some (xss[nat e := (xss ! nat e)[nat d := v]])"
  by (simp add: wr2_def)

lemma idx_range_Suc: "idx_range (int (Suc n)) = idx_range (int n) @ [int n]"
  unfolding idx_range_def nat_int by simp

lemma foldM_append:
  "foldM f s (xs @ ys) = (case foldM f s xs of None \<Rightarrow> None | Some s' \<Rightarrow> foldM f s' ys)"
  by (induction xs arbitrary: s) (auto split: option.splits)

lemma H_INDEX_range:
  assumes "0 < n1" "0 < n2" "0 < n3"
  shows "0 \<le> H_INDEX i j k n1 n2 n3 \<and> H_INDEX i j k n1 n2 n3 < n1 * n2 * n3"
proof -
  let ?a = "i mod n1" and ?b = "j mod n2" and ?c = "k mod n3"
  have a: "0 \<le> ?a" "?a \<le> n1 - 1" and b: "0 \<le> ?b" "?b \<le> n2 - 1" and c: "0 \<le> ?c" "?c \<le> n3 - 1"
    using assms by (simp_all add: pos_mod_bound zle_diff1_eq)
  have "?a * (n2 * n3) \<le> (n1 - 1) * (n2 * n3)" using a assms by (intro mult_right_mono) simp_all
  moreover have "?b * n3 \<le> (n2 - 1) * n3" using b assms by (intro mult_right_mono) simp_all
  moreover have "0 \<le> ?a * (n2 * n3)" "0 \<le> ?b * n3" using a b assms by simp_all
  ultimately have "0 \<le> ?a * (n2 * n3) + ?b * n3 + ?c \<and>
      ?a * (n2 * n3) + ?b * n3 + ?c \<le> (n1 - 1) * (n2 * n3) + (n2 - 1) * n3 + (n3 - 1)"
    using c by linarith
  moreover have "(n1 - 1) * (n2 * n3) + (n2 - 1) * n3 + (n3 - 1) = n1 * n2 * n3 - 1"
    by (simp add: algebra_simps)
  ultimately show ?thesis by (simp add: H_INDEX_def mult.assoc)
qed

lemma set_idx_range: "set (idx_range n) = {0..<n}"
  by (cases "0 \<le> n") (simp_all add: idx_range_def image_int_atLeastLessThan)

lemma set_FAS_LOOP3_N:
  "(i, j, k) \<in> set (FAS_LOOP3_N n1 n2 n3) \<longleftrightarrow>
   0 \<le> i \<and> i < n1 \<and> 0 \<le> j \<and> j < n2 \<and> 0 \<le> k \<and> k < n3"
  by (force simp: FAS_LOOP3_N_def set_idx_range)

lemma relax_rounds_break:
  "relax_round h depth s = Some (Break s') \<Longrightarrow> 0 < n \<Longrightarrow> relax_rounds h depth n s = Some (Ok s')"
  by (cases n) simp_all

subsection \<open>The example solvers\<close>

lemma point_solver_sel [simp]:
  "u_h (point_solver ms q u v r) = [[grid 1 1 1 [u]]]"
  "tmp_h (point_solver ms q u v r) = [[grid 1 1 1 [0]]]"
  "coarse_src_h (point_solver ms q u v r) = [[grid 1 1 1 [0]]]"
  "jac_rhs_h (point_solver ms q u v r) = [[grid 1 1 1 [r]]]"
  "damping_v_h (point_solver ms q u v r) = [[grid 1 1 1 [v]]]"
  "rho_h (point_solver ms q u v r) = [map (\<lambda>m. [grid 1 1 1 [q]]) ms]"
  "u_n (point_solver ms q u v r) = 1"
  "molecule_n (point_solver ms q u v r) = [int (length ms)]"
  "nx_h (point_solver ms q u v r) = [1]"
  "ny_h (point_solver ms q u v r) = [1]"
  "nz_h (point_solver ms q u v r) = [1]"
  "relaxation_tolerance (point_solver ms q u v r) = 1 / 10"
  "max_depth (point_solver ms q u v r) = 1"
  "min_depth (point_solver ms q u v r) = 1"
  "max_depth_idx (point_solver ms q u v r) = 0"
  "relax_scheme (point_solver ms q u v r) = inexact_newton"
  "eqns (point_solver ms q u v r) = [ms]"
  by (simp_all add: point_solver_def)

lemma point_solver_upd [simp]:
  "(point_solver ms q u v r)\<lparr>u_h := [[grid 1 1 1 [u']]]\<rparr> = point_solver ms q u' v r"
  "(point_solver ms q u v r)\<lparr>damping_v_h := [[grid 1 1 1 [v']]]\<rparr> = point_solver ms q u v' r"
  "(point_solver ms q u v r)\<lparr>jac_rhs_h := [[grid 1 1 1 [r']]]\<rparr> = point_solver ms q u v r'"
  by (simp_all add: point_solver_def)

lemma grid_arr [simp]:
  "arr (grid n1 n2 n3 xs) = xs" "nx (grid n1 n2 n3 xs) = n1" "ny (grid n1 n2 n3 xs) = n2"
  "nz (grid n1 n2 n3 xs) = n3" "pts (grid n1 n2 n3 xs) = n1 * n2 * n3"
  "(grid n1 n2 n3 xs)\<lparr>arr := ys\<rparr> = grid n1 n2 n3 ys"
  by (simp_all add: grid_def)

lemma idx_range_1 [simp]: "idx_range 1 = [0]" "idx_range 0 = []"
  by (simp_all add: idx_range_def)

lemma sites_111: "sites_of 1 1 1 = [(0, 0, 0, 0)]"
  by (simp add: sites_of_def FAS_LOOP3_N_def H_INDEX_def)

lemma sites_at_point [simp]: "sites_at (point_solver ms q u v r) 0 = Some [(0, 0, 0, 0)]"
  by (simp add: sites_at_def sites_111 rd_def)

lemma idx_range_2: "idx_range 2 = [0, 1]"
  by (simp add: idx_range_def eval_nat_numeral)

lemma point_atoms:
  "get_atom (point_solver [square_u0, rho_alone] q x v r) 0 0 0 = Some \<lparr>atype = 1, u_id = 0, avalue = 2\<rparr>"
  "get_atom (point_solver [square_u0, rho_alone] q x v r) 0 1 0 = Some \<lparr>atype = 0, u_id = 0, avalue = 0\<rparr>"
  "pos_index (point_solver ms q x v r) 0 0 0 0 = Some 0"
  "rho_at (point_solver [square_u0, rho_alone] q x v r) 0 1 0 0 = Some q"
  "atom_n square_u0 = 1" "atom_n rho_alone = 1"
  by (simp_all add: get_atom_def pos_index_def rho_at_def rd_def rd2_def square_u0_def
      rho_alone_def H_INDEX_def)

lemma point_eval:
  "evaluateEllipticEquationPt host3 (point_solver [square_u0, rho_alone] q x v r) 0 0 0 0 0 =
     Some (x ^ 2 + q)"
  by (simp add: evaluateEllipticEquationPt_def idx_range_2 eval_atom_def point_atoms rd_def
      rd2_def host3_def)

lemma point_der:
  "evaluateDerEllipticEquation host3 (point_solver [square_u0, rho_alone] q x v r) 0 0 0 0 0 0 =
     Some (2 * x * v)"
  by (simp add: evaluateDerEllipticEquation_def idx_range_2 der_atom_def point_atoms rd_def
      rd2_def host3_def)

lemma point_jac:
  "evaluateIterationForJacEquation host3 (point_solver [square_u0, rho_alone] q x v r) 0 0 (0, 0)
     0 0 0 0 = Some (0, 2 * x)"
  by (simp add: evaluateIterationForJacEquation_def idx_range_2 jac_atom_def jac_scale_def
      point_atoms rd_def rd2_def host3_def)

lemma point_peek_poke:
  "peek (point_solver ms q x v r) (Jac_rhs_h 0) 0 0 = Some r"
  "peek (point_solver ms q x v r) (Coarse_src_h 0) 0 0 = Some 0"
  "poke (point_solver ms q x v r) (Damping_v_h 0) 0 0 v' = Some (point_solver ms q x v' r)"
  "poke (point_solver ms q x v r) (Jac_rhs_h 0) 0 0 r' = Some (point_solver ms q x v r')"
  by (simp_all add: peek_def poke_def load_def store_def rd_def wr_def)

lemma point_init:
  "jacobian_init (point_solver ms q x v r) 0 [(0, 0, 0, 0)] = Some (point_solver ms q x 0 r)"
  by (simp add: jacobian_init_def point_peek_poke)

lemma point_sweep:
  "x \<noteq> 0 \<Longrightarrow> jacobian_sweep host3 (point_solver [square_u0, rho_alone] q x v r) 0 [(0, 0, 0, 0)] =
     Some (point_solver [square_u0, rho_alone] q x (r / (2 * x)) r)"
  by (simp add: jacobian_sweep_def point_jac point_peek_poke rd2_def rd_def rdiv_def)

lemma point_norm:
  "jacobian_norm host3 (point_solver [square_u0, rho_alone] q x v r) 0 [(0, 0, 0, 0)] =
     Some ((2 * x * v - r) * (2 * x * v - r))"
  by (simp add: jacobian_norm_def point_der rd2_def rd_def Let_def)

lemma point_residual:
  "getMaxResidualAllEqs host3 (point_solver [square_u0, rho_alone] q x v r) 1 = Some \<bar>x ^ 2 + q\<bar>"
proof -
  have "\<bar>- x\<^sup>2 - q\<bar> = \<bar>x\<^sup>2 + q\<bar>" by (simp add: abs_if)
  then show ?thesis
    by (simp add: getMaxResidualAllEqs_def getMaxResidual_def dIdx_def point_eval rd2_def rd_def
        Let_def)
qed

lemma point_relax_norm:
  "relax_norm host3 (point_solver [square_u0, rho_alone] q x v r) 0 [(0, 0, 0, 0)] =
     Some ((x ^ 2 + q) * (x ^ 2 + q), point_solver [square_u0, rho_alone] q x v (- (x ^ 2 + q)))"
  by (simp add: relax_norm_def point_eval point_peek_poke rd2_def rd_def Let_def)

lemma point_residual_sum:
  "residual_sum host3 (point_solver [square_u0, rho_alone] q x v r) 0 [(0, 0, 0, 0)] =
     Some ((x ^ 2 + q) * (x ^ 2 + q))"
  by (simp add: residual_sum_def point_eval rd_def rd2_def Let_def)

lemma update_point:
  "update_u f (point_solver ms q x v r) 0 [(0, 0, 0, 0)] = Some (point_solver ms q (f x v) v r)"
  by (simp add: update_u_def update_sites_def rd_def rd2_def wr_def wr2_def)

subsection \<open>The evaluators\<close>

lemma eval_atom_damping_v:
  "eval_atom h (s\<lparr>damping_v_h := dv\<rparr>) eqn_id mol_id depth_idx i j k =
   eval_atom h s eqn_id mol_id depth_idx i j k"
  by (intro ext) (simp add: eval_atom_def get_atom_def pos_index_def rho_at_def cong: if_cong)

text \<open>
  Claim C7. The evaluator is a function of its arguments, and two solvers that differ only in
  the \<open>damping_v\<close> hierarchy (same \<open>u\<close>, \<open>rho\<close>, equations and dimensions) give the same value,
  or both read outside an array, at every equation, depth and site.
\<close>

theorem eval_independent_of_damping_v:
  "evaluateEllipticEquationPt h (s\<lparr>damping_v_h := dv1\<rparr>) eqn_id depth_idx i j k =
   evaluateEllipticEquationPt h (s\<lparr>damping_v_h := dv2\<rparr>) eqn_id depth_idx i j k"
  by (simp add: evaluateEllipticEquationPt_def eval_atom_damping_v)

text \<open>
  Claim C1 fails on the code: the Laplacian branch of \<^verbatim>\<open>_evaluateDerEllipticEquation\<close> (line
  395) tests \<^verbatim>\<open>eqn_id == ad.u_id\<close>, where every other branch, and the Laplacian branch of
  \<^verbatim>\<open>_evaluateIterationForJacEquation\<close> (line 295), test \<^verbatim>\<open>u_id == ad.u_id\<close>. Two equations
  of one molecule each, the molecule being the single atom \<open>Lap{u_id = 1}\<close>, on a 2 x 1 x 1
  grid with \<open>damping_v[1] = [1, 0]\<close> and a second-order Laplacian: the derivative with respect
  to variable 1 at the site (0, 0, 0) is the Laplacian of \<open>damping_v[1]\<close>, which is -8, in
  equation 1, and 0 in equation 0, where the same atom is not linearized.
\<close>

theorem der_laplacian_branch_tests_eqn_id:
  "evaluateDerEllipticEquation host_o2 two_eqn_solver 0 0 0 0 0 1 = Some 0 \<and>
   evaluateDerEllipticEquation host_o2 two_eqn_solver 1 0 0 0 0 1 = Some (- 8) \<and>
   laplacian host_o2 0 0 0 2 1 1 (grid 2 1 1 [1, 0]) = - 8"
  by (simp add: evaluateDerEllipticEquation_def two_eqn_solver_def idx_range_def rd_def rd2_def
      lap_u1_def der_atom_def get_atom_def pos_index_def host_o2_def grid_def lap_o2_def
      H_INDEX_def)

subsection \<open>The Jacobian relaxation\<close>

lemma loop_unfold:
  "jacobianRelax_loop h d sites S C p s cnt r0 =
     (if threshold h S C p \<le> r0 then
        (case jacobian_sweep h s d sites of
           None \<Rightarrow> Some Fault
         | Some s1 \<Rightarrow>
             (case jacobian_norm h s1 d sites of
                None \<Rightarrow> Some Fault
              | Some r1 \<Rightarrow>
                  if cnt + 1 > 500 \<and> r1 > 0 then Some (Ok (False, s1))
                  else jacobianRelax_loop h d sites S C p s1 (cnt + 1) r1))
      else Some (Ok (True, s)))"
  by (subst jacobianRelax_loop.simps) (simp add: threshold_def)

lemma loop_run_complete:
  "jacobian_sweeps h d sites n s = Some s' \<Longrightarrow>
   (\<forall>m<n. goes_on h d sites (threshold h S C p) cnt r0 s m) \<Longrightarrow>
   ends_with h d sites (threshold h S C p) cnt r0 s n c \<Longrightarrow>
   jacobianRelax_loop h d sites S C p s cnt r0 = Some (Ok (c, s'))"
proof (induction n arbitrary: s cnt r0)
  case 0
  then show ?case
    by (subst loop_unfold) (simp add: ends_with_def)
next
  case (Suc n)
  from Suc.prems(1) obtain s1 where
    s1: "jacobian_sweep h s d sites = Some s1" and r: "jacobian_sweeps h d sites n s1 = Some s'"
    by (auto split: option.splits)
  from Suc.prems(3) s1 obtain r1 where r1: "jacobian_norm h s1 d sites = Some r1"
    by (auto simp: ends_with_def split: option.splits)
  from Suc.prems(2) have "goes_on h d sites (threshold h S C p) cnt r0 s 0" by simp
  then have enter: "threshold h S C p \<le> r0"
    by (simp add: goes_on_def)
  show ?case
  proof (cases "cnt + 1 > 500 \<and> r1 > 0")
    case True
    have "n = 0"
    proof (rule ccontr)
      assume "n \<noteq> 0"
      then have "goes_on h d sites (threshold h S C p) cnt r0 s 1" using Suc.prems(2) by simp
      then show False using True s1 r1 by (simp add: goes_on_def)
    qed
    with Suc.prems(3) r True s1 r1 have "c = False" "s' = s1" by (auto simp: ends_with_def)
    then show ?thesis
      using enter s1 r1 True by (subst loop_unfold) simp
  next
    case False
    have g: "\<forall>m<n. goes_on h d sites (threshold h S C p) (cnt + 1) r1 s1 m"
    proof (intro allI impI)
      fix m assume "m < n"
      then have "goes_on h d sites (threshold h S C p) cnt r0 s (Suc m)" using Suc.prems(2) by simp
      then show "goes_on h d sites (threshold h S C p) (cnt + 1) r1 s1 m"
        using s1 r1 False by (cases m) (auto simp: goes_on_def split: option.splits)
    qed
    have e: "ends_with h d sites (threshold h S C p) (cnt + 1) r1 s1 n c"
      using Suc.prems(3) s1 r1 False
      by (cases n) (auto simp: ends_with_def split: option.splits if_splits)
    have "jacobianRelax_loop h d sites S C p s cnt r0 =
        jacobianRelax_loop h d sites S C p s1 (cnt + 1) r1"
      using enter s1 r1 False by (subst loop_unfold) auto
    then show ?thesis using Suc.IH [OF r g e] by simp
  qed
qed




lemma point_loop_converges:
  assumes "x \<noteq> 0" "0 < S" "S \<le> 10 ^ 100"
  shows "jacobianRelax host3 (point_solver [square_u0, rho_alone] q x v r) 1 S 1 0 =
     Some (Ok (True, point_solver [square_u0, rho_alone] q x (r / (2 * x)) r))"
proof -
  have t: "threshold host3 S 1 0 = S" by (simp add: threshold_def host3_def)
  have z: "2 * x * (r / (2 * x)) - r = 0" using assms(1) by simp
  have a: "jacobianRelax_loop host3 0 [(0, 0, 0, 0)] S 1 0
      (point_solver [square_u0, rho_alone] q x (r / (2 * x)) r) 1 0 =
    Some (Ok (True, point_solver [square_u0, rho_alone] q x (r / (2 * x)) r))"
    using assms(2) by (subst loop_unfold) (simp add: t)
  have b: "jacobianRelax_loop host3 0 [(0, 0, 0, 0)] S 1 0
      (point_solver [square_u0, rho_alone] q x 0 r) 0 (10 ^ 100) =
    jacobianRelax_loop host3 0 [(0, 0, 0, 0)] S 1 0
      (point_solver [square_u0, rho_alone] q x (r / (2 * x)) r) 1 0"
    using assms(1,3) by (subst loop_unfold) (simp add: t point_sweep point_norm)
  have "jacobianRelax host3 (point_solver [square_u0, rho_alone] q x v r) 1 S 1 0 =
      jacobianRelax_loop host3 0 [(0, 0, 0, 0)] S 1 0
        (point_solver [square_u0, rho_alone] q x 0 r) 0 (10 ^ 100)"
    by (simp add: jacobianRelax_def Let_def dIdx_def point_init)
  with a b show ?thesis by simp
qed




subsection \<open>The ways out of the smoother\<close>

lemma loop_never_throws:
  "jacobianRelax_loop h d sites S C p s cnt r0 = Some y \<Longrightarrow> y \<noteq> Threw e"
proof (induction rule: jacobianRelax_loop.raw_induct [rotated, consumes 1])
  case (1 loop h d sites S C p s cnt r0 y)
  then show ?case
    by (auto simp: Let_def split: if_splits option.splits)
qed

lemma jacobianRelax_never_throws: "jacobianRelax h s depth S C p \<noteq> Some (Threw e)"
proof (cases "sites_at s (dIdx s depth)")
  case None
  then show ?thesis by (simp add: jacobianRelax_def Let_def)
next
  case sites: (Some sites)
  show ?thesis
  proof (cases "jacobian_init s (dIdx s depth) sites")
    case None
    then show ?thesis using sites by (simp add: jacobianRelax_def Let_def)
  next
    case (Some s0)
    then have "jacobianRelax h s depth S C p =
        jacobianRelax_loop h (dIdx s depth) sites S C p s0 0 (10 ^ 100)"
      using sites by (simp add: jacobianRelax_def Let_def)
    with loop_never_throws [of h "dIdx s depth" sites S C p s0 0 "10 ^ 100" "Threw e" e]
    show ?thesis by auto
  qed
qed

lemma continued_stuck:
  "\<forall>s'. relax_round h depth s \<noteq> Some (Continue s') \<Longrightarrow>
   continued_rounds h depth k s = Some s_k \<longleftrightarrow> k = 0 \<and> s_k = s"
  by (cases k) (auto split: option.splits round_end.splits)

lemma round_throws:
  "relax_round h depth s = Some (Throw e) \<longleftrightarrow>
     e = - 1 \<and> (\<exists>s3. lambda_of h depth s = Some (False, s3))"
  using jacobianRelax_never_throws [of h _ depth _ 1 0 e]
  by (auto simp: relax_round_def lambda_of_def jacobian_of_def Let_def
      split: option.splits result.splits bool.splits if_splits prod.splits)

lemma round_breaks:
  "jacobian_of h depth s = Some (nrm, Ok (False, s2)) \<Longrightarrow> relax_round h depth s = Some (Break s2)"
  by (auto simp: relax_round_def jacobian_of_def Let_def
      split: option.splits result.splits bool.splits if_splits prod.splits)

lemma rounds_throw:
  "relax_rounds h depth n s = Some (Threw e) \<longleftrightarrow>
     (\<exists>k s_k. k < n \<and> continued_rounds h depth k s = Some s_k
        \<and> relax_round h depth s_k = Some (Throw e))"
proof (induction n arbitrary: s)
  case 0
  then show ?case by simp
next
  case (Suc n)
  show ?case
  proof (cases "\<exists>s1. relax_round h depth s = Some (Continue s1)")
    case False
    then have st: "\<forall>s'. relax_round h depth s \<noteq> Some (Continue s')" by simp
    have "relax_rounds h depth (Suc n) s = Some (Threw e) \<longleftrightarrow>
        relax_round h depth s = Some (Throw e)"
      using False by (auto split: option.splits round_end.splits)
    then show ?thesis by (simp add: continued_stuck [OF st])
  next
    case True
    then obtain s1 where s1: "relax_round h depth s = Some (Continue s1)" by blast
    have "(\<exists>k s_k. k < Suc n \<and> continued_rounds h depth k s = Some s_k
          \<and> relax_round h depth s_k = Some (Throw e)) \<longleftrightarrow>
        (\<exists>k s_k. k < n \<and> continued_rounds h depth k s1 = Some s_k
          \<and> relax_round h depth s_k = Some (Throw e))" (is "?L \<longleftrightarrow> ?R")
    proof
      assume ?L
      then obtain k s_k where k: "k < Suc n" "continued_rounds h depth k s = Some s_k"
        "relax_round h depth s_k = Some (Throw e)" by blast
      show ?R
      proof (cases k)
        case 0
        with k s1 show ?thesis by simp
      next
        case (Suc k')
        with k s1 have "k' < n" "continued_rounds h depth k' s1 = Some s_k" by auto
        with k(3) show ?thesis by blast
      qed
    next
      assume ?R
      then obtain k s_k where k: "k < n" "continued_rounds h depth k s1 = Some s_k"
        "relax_round h depth s_k = Some (Throw e)" by blast
      then have "Suc k < Suc n" "continued_rounds h depth (Suc k) s = Some s_k"
        using s1 by auto
      with k(3) show ?L by blast
    qed
    then show ?thesis using s1 Suc.IH [of s1] by simp
  qed
qed

lemma rounds_break:
  "k < n \<Longrightarrow> continued_rounds h depth k s = Some s_k \<Longrightarrow>
   relax_round h depth s_k = Some (Break s') \<Longrightarrow> relax_rounds h depth n s = Some (Ok s')"
proof (induction k arbitrary: n s)
  case 0
  then show ?case by (cases n) auto
next
  case (Suc k)
  from Suc.prems(1) obtain n' where n: "n = Suc n'" "k < n'" by (cases n) auto
  from Suc.prems(2) obtain s1 where s1: "relax_round h depth s = Some (Continue s1)"
    "continued_rounds h depth k s1 = Some s_k"
    by (auto split: option.splits round_end.splits)
  from Suc.IH [OF n(2) s1(2) Suc.prems(3)] s1(1) show ?case unfolding n by simp
qed

text \<open>
  Claim C3. \<^verbatim>\<open>_relaxSolution_GaussSeidel\<close> leaves by \<^verbatim>\<open>throw\<close> exactly when, in one of its
  rounds, reached through rounds that ran to the end of the body, \<^verbatim>\<open>_getLambda\<close> is called
  and answers \<open>false\<close>; the value thrown is \<open>-1\<close>. When in such a round \<^verbatim>\<open>_jacobianRelax\<close>
  answers \<open>false\<close>, the smoother returns, with the solver \<open>s2\<close> as the Jacobian relaxation
  left it, and the V-cycle goes on from \<open>s2\<close>: after its first smoothing with the residual
  and the two strokes, in a round of the upward stroke with the correction of the finer
  grid, after its last smoothing with the final residual. A throw of the first smoothing
  of a V-cycle leaves \<^verbatim>\<open>VCycle\<close> as well.
\<close>

theorem smoother_throws_iff_line_search_fails:
  "(relaxSolution_GaussSeidel h s depth max_iterations = Some (Threw e) \<longleftrightarrow>
      e = - 1 \<and>
      (\<exists>k s_k s3. int k < max_iterations \<and> continued_rounds h depth k s = Some s_k
         \<and> lambda_of h depth s_k = Some (False, s3)))
   \<and> (\<forall>k s_k nrm s2.
         int k < max_iterations \<and> continued_rounds h depth k s = Some s_k
           \<and> jacobian_of h depth s_k = Some (nrm, Ok (False, s2)) \<longrightarrow>
         relaxSolution_GaussSeidel h s depth max_iterations = Some (Ok s2))
   \<and> (\<forall>k s_k nrm s2.
         int k < max_relax_iters s \<and> continued_rounds h (max_depth s) k s = Some s_k
           \<and> jacobian_of h (max_depth s) s_k = Some (nrm, Ok (False, s2)) \<longrightarrow>
         VCycle h s = VCycle_strokes h s2 \<and> VCycle_last h s = VCycle_end h s2)
   \<and> (\<forall>k s_k nrm s2.
         int k < max_relax_iters s \<and> continued_rounds h depth k s = Some s_k
           \<and> jacobian_of h depth s_k = Some (nrm, Ok (False, s2)) \<longrightarrow>
         VCycle_up h s depth = VCycle_correct h s2 depth)
   \<and> (relaxSolution_GaussSeidel h s (max_depth s) (max_relax_iters s) = Some (Threw e) \<longrightarrow>
        VCycle h s = Some (Threw e))"
proof -
  have lt: "int k < m \<longleftrightarrow> k < nat m" for k m by auto
  have ret: "relaxSolution_GaussSeidel h s d m = Some (Ok s2)"
    if "int k < m \<and> continued_rounds h d k s = Some s_k
           \<and> jacobian_of h d s_k = Some (nrm, Ok (False, s2))" for k s_k nrm s2 d m
    unfolding relaxSolution_GaussSeidel_def
    using that rounds_break [of k "nat m" h d s s_k s2] round_breaks [of h d s_k nrm s2]
    by (simp add: lt)
  have "relaxSolution_GaussSeidel h s depth max_iterations = Some (Threw e) \<longleftrightarrow>
      e = - 1 \<and>
      (\<exists>k s_k s3. int k < max_iterations \<and> continued_rounds h depth k s = Some s_k
         \<and> lambda_of h depth s_k = Some (False, s3))"
    unfolding relaxSolution_GaussSeidel_def rounds_throw round_throws lt by blast
  moreover have "\<forall>k s_k nrm s2.
         int k < max_iterations \<and> continued_rounds h depth k s = Some s_k
           \<and> jacobian_of h depth s_k = Some (nrm, Ok (False, s2)) \<longrightarrow>
         relaxSolution_GaussSeidel h s depth max_iterations = Some (Ok s2)"
    using ret by blast
  moreover have "\<forall>k s_k nrm s2.
         int k < max_relax_iters s \<and> continued_rounds h (max_depth s) k s = Some s_k
           \<and> jacobian_of h (max_depth s) s_k = Some (nrm, Ok (False, s2)) \<longrightarrow>
         VCycle h s = VCycle_strokes h s2 \<and> VCycle_last h s = VCycle_end h s2"
  proof (intro allI impI)
    fix k s_k nrm s2
    assume "int k < max_relax_iters s \<and> continued_rounds h (max_depth s) k s = Some s_k
           \<and> jacobian_of h (max_depth s) s_k = Some (nrm, Ok (False, s2))"
    from ret [OF this] show "VCycle h s = VCycle_strokes h s2 \<and> VCycle_last h s = VCycle_end h s2"
      by (simp add: VCycle_def VCycle_last_def bindR_def)
  qed
  moreover have "\<forall>k s_k nrm s2.
         int k < max_relax_iters s \<and> continued_rounds h depth k s = Some s_k
           \<and> jacobian_of h depth s_k = Some (nrm, Ok (False, s2)) \<longrightarrow>
         VCycle_up h s depth = VCycle_correct h s2 depth"
  proof (intro allI impI)
    fix k s_k nrm s2
    assume "int k < max_relax_iters s \<and> continued_rounds h depth k s = Some s_k
           \<and> jacobian_of h depth s_k = Some (nrm, Ok (False, s2))"
    from ret [OF this] show "VCycle_up h s depth = VCycle_correct h s2 depth"
      by (simp add: VCycle_up_def bindR_def)
  qed
  moreover have "relaxSolution_GaussSeidel h s (max_depth s) (max_relax_iters s) = Some (Threw e) \<longrightarrow>
        VCycle h s = Some (Threw e)"
    by (simp add: VCycle_def bindR_def)
  ultimately show ?thesis by blast
qed

lemma point_jacobian_of:
  assumes "x \<noteq> 0" "1 / 10 \<le> \<bar>x ^ 2 + q\<bar>" "(x ^ 2 + q) * (x ^ 2 + q) \<le> 10 ^ 100"
  shows "jacobian_of host3 1 (point_solver [square_u0, rho_alone] q x v r) =
     Some ((x ^ 2 + q) * (x ^ 2 + q),
           Ok (True, point_solver [square_u0, rho_alone] q x (- (x ^ 2 + q) / (2 * x))
                       (- (x ^ 2 + q))))"
proof -
  have "x ^ 2 + q \<noteq> 0" using assms(2) by auto
  then have pos: "0 < (x ^ 2 + q) * (x ^ 2 + q)" by (auto simp: zero_less_mult_iff)
  have f: "dIdx (point_solver [square_u0, rho_alone] q x v r) 1 = 0"
    "relaxation_tolerance (point_solver [square_u0, rho_alone] q x v r) = 1 / 10"
    "relax_scheme (point_solver [square_u0, rho_alone] q x v r) = inexact_newton"
    by (simp_all add: dIdx_def point_solver_def)
  show ?thesis
    unfolding jacobian_of_def f
    using assms(2)
    by (simp add: point_residual point_relax_norm point_loop_converges [OF assms(1) pos assms(3)])
qed

lemma trials_no_root:
  "n \<le> k \<Longrightarrow>
   lambda_trials host3 0 ((10001 / 10000) * (10001 / 10000)) [(0, 0, 0, 0)] n
       (point_solver [square_u0, rho_alone] 1 (1 / 100 - real k * (10001 / 20000))
          (- (10001 / 200)) r) =
     Some (False, point_solver [square_u0, rho_alone] 1 (1 / 100 - real (k - n) * (10001 / 20000))
       (- (10001 / 200)) r)"
proof (induction n arbitrary: k)
  case 0
  then show ?case by simp
next
  case (Suc n)
  then obtain k' where k: "k = Suc k'" "n \<le> k'" by (cases k) auto
  define x :: real where "x = 1 / 100 - real k * (10001 / 20000)"
  define y :: real where "y = 1 / 100 - real k' * (10001 / 20000)"
  have "x \<le> - (9801 / 20000)" unfolding x_def k by (simp add: field_simps)
  then have "(9801 / 20000) ^ 2 \<le> (- x) ^ 2" by (intro power_mono) auto
  then have "10001 / 10000 < x ^ 2 + 1" by (simp add: power2_eq_square)
  then have "(10001 / 10000) * (10001 / 10000) < (x ^ 2 + 1) * (x ^ 2 + 1)"
    by (intro mult_strict_mono) auto
  then have big: "\<not> (x ^ 2 + 1) * (x ^ 2 + 1) \<le> (10001 / 10000) * (10001 / 10000)" by simp
  have st: "y = x - 0.01 * (- (10001 / 200))" unfolding x_def y_def k by (simp add: field_simps)
  have step: "lambda_trials host3 0 ((10001 / 10000) * (10001 / 10000)) [(0, 0, 0, 0)] (Suc n)
        (point_solver [square_u0, rho_alone] 1 a (- (10001 / 200)) r) =
      lambda_trials host3 0 ((10001 / 10000) * (10001 / 10000)) [(0, 0, 0, 0)] n
        (point_solver [square_u0, rho_alone] 1 b (- (10001 / 200)) r)"
    if "\<not> (a ^ 2 + 1) * (a ^ 2 + 1) \<le> (10001 / 10000) * (10001 / 10000)"
      "b = a - 0.01 * (- (10001 / 200))" for a b
    using that by (simp add: point_residual_sum update_point)
  have "k - Suc n = k' - n" unfolding k by simp
  then show ?case
    using step [OF big st] Suc.IH [OF k(2)] unfolding x_def y_def by simp
qed

lemma no_root_line_search:
  "getLambda host3 (point_solver [square_u0, rho_alone] 1 (1 / 100) (- (10001 / 200)) r) 1
       ((10001 / 10000) * (10001 / 10000)) =
     Some (False, point_solver [square_u0, rho_alone] 1 (1 / 100) (- (10001 / 200)) r)"
proof -
  have "getLambda host3 (point_solver [square_u0, rho_alone] 1 (1 / 100) (- (10001 / 200)) r) 1
       ((10001 / 10000) * (10001 / 10000)) =
     lambda_trials host3 0 ((10001 / 10000) * (10001 / 10000)) [(0, 0, 0, 0)] 100
       (point_solver [square_u0, rho_alone] 1 (1 / 100 - real 100 * (10001 / 20000))
          (- (10001 / 200)) r)"
    by (simp add: getLambda_def Let_def dIdx_def update_point)
  then show ?thesis using trials_no_root [of 100 100 r] by simp
qed

lemma no_root_lambda_of:
  "lambda_of host3 1 (point_solver [square_u0, rho_alone] 1 (1 / 100) 0 0) =
     Some (False, point_solver [square_u0, rho_alone] 1 (1 / 100) (- (10001 / 200))
       (- (10001 / 10000)))"
proof -
  have "jacobian_of host3 1 (point_solver [square_u0, rho_alone] 1 (1 / 100) 0 0) =
     Some (((1 / 100) ^ 2 + 1) * ((1 / 100) ^ 2 + 1),
           Ok (True, point_solver [square_u0, rho_alone] 1 (1 / 100)
             (- ((1 / 100) ^ 2 + 1) / (2 * (1 / 100))) (- ((1 / 100) ^ 2 + 1))))"
    by (rule point_jacobian_of) (simp_all add: power2_eq_square)
  moreover have "(1 / 100) ^ 2 + 1 = (10001 / 10000 :: real)"
    "- ((1 / 100) ^ 2 + 1) / (2 * (1 / 100)) = (- (10001 / 200) :: real)"
    by (simp_all add: power2_eq_square)
  ultimately have "jacobian_of host3 1 (point_solver [square_u0, rho_alone] 1 (1 / 100) 0 0) =
     Some ((10001 / 10000) * (10001 / 10000),
           Ok (True, point_solver [square_u0, rho_alone] 1 (1 / 100)
             (- (10001 / 200)) (- (10001 / 10000))))"
    by simp
  then show ?thesis
    unfolding lambda_of_def using no_root_line_search [of "- (10001 / 10000)"] by simp
qed

lemma lap_solver_sel [simp]:
  "u_h (lap_solver x v r t) = [[grid 1 1 1 [x]]]"
  "tmp_h (lap_solver x v r t) = [[grid 1 1 1 [t]]]"
  "coarse_src_h (lap_solver x v r t) = [[grid 1 1 1 [0]]]"
  "jac_rhs_h (lap_solver x v r t) = [[grid 1 1 1 [r]]]"
  "damping_v_h (lap_solver x v r t) = [[grid 1 1 1 [v]]]"
  "rho_h (lap_solver x v r t) = [[[grid 1 1 1 [1]], [grid 1 1 1 [1]]]]"
  "u_n (lap_solver x v r t) = 1"
  "molecule_n (lap_solver x v r t) = [2]"
  "nx_h (lap_solver x v r t) = [1]"
  "ny_h (lap_solver x v r t) = [1]"
  "nz_h (lap_solver x v r t) = [1]"
  "relaxation_tolerance (lap_solver x v r t) = 1 / 10"
  "max_depth (lap_solver x v r t) = 1"
  "min_depth (lap_solver x v r t) = 1"
  "max_relax_iters (lap_solver x v r t) = 10"
  "relax_scheme (lap_solver x v r t) = inexact_newton"
  "eqns (lap_solver x v r t) = [[lap_u0, rho_alone]]"
  by (simp_all add: lap_solver_def point_solver_def)

lemma lap_solver_upd [simp]:
  "(lap_solver x v r t)\<lparr>damping_v_h := [[grid 1 1 1 [v']]]\<rparr> = lap_solver x v' r t"
  "(lap_solver x v r t)\<lparr>jac_rhs_h := [[grid 1 1 1 [r']]]\<rparr> = lap_solver x v r' t"
  "(lap_solver x v r t)\<lparr>tmp_h := [[grid 1 1 1 [t']]]\<rparr> = lap_solver x v r t'"
  by (simp_all add: lap_solver_def point_solver_def)

lemma lap_solver_point: "point_solver [lap_u0, rho_alone] 1 x v r = lap_solver x v r 0"
  by (simp add: lap_solver_def point_solver_def)

lemma lap_atoms:
  "get_atom (lap_solver x v r t) 0 0 0 = Some \<lparr>atype = 11, u_id = 0, avalue = 0\<rparr>"
  "get_atom (lap_solver x v r t) 0 1 0 = Some \<lparr>atype = 0, u_id = 0, avalue = 0\<rparr>"
  "rho_at (lap_solver x v r t) 0 1 0 0 = Some 1"
  "pos_index (lap_solver x v r t) 0 0 0 0 = Some 0"
  "sites_at (lap_solver x v r t) 0 = Some [(0, 0, 0, 0)]"
  "atom_n lap_u0 = 1"
  by (simp_all add: get_atom_def rho_at_def pos_index_def sites_at_def sites_111 rd_def rd2_def
      lap_u0_def rho_alone_def H_INDEX_def)

lemma lap_peek_poke:
  "peek (lap_solver x v r t) (Jac_rhs_h 0) 0 0 = Some r"
  "peek (lap_solver x v r t) (Coarse_src_h 0) 0 0 = Some 0"
  "poke (lap_solver x v r t) (Damping_v_h 0) 0 0 v' = Some (lap_solver x v' r t)"
  "poke (lap_solver x v r t) (Jac_rhs_h 0) 0 0 r' = Some (lap_solver x v r' t)"
  by (simp_all add: peek_def poke_def load_def store_def rd_def wr_def)

lemma lap_init:
  "jacobian_init (lap_solver x v r t) 0 [(0, 0, 0, 0)] = Some (lap_solver x 0 r t)"
  by (simp add: jacobian_init_def lap_peek_poke)

lemma lap_eval:
  "evaluateEllipticEquationPt host3 (lap_solver x v r t) 0 0 0 0 0 = Some 1"
  by (simp add: evaluateEllipticEquationPt_def idx_range_2 eval_atom_def point_atoms lap_atoms
      rd_def rd2_def host3_def)

lemma lap_der:
  "evaluateDerEllipticEquation host3 (lap_solver x v r t) 0 0 0 0 0 0 = Some 0"
  by (simp add: evaluateDerEllipticEquation_def idx_range_2 der_atom_def point_atoms lap_atoms
      rd_def rd2_def host3_def)

lemma lap_jac:
  "evaluateIterationForJacEquation host3 (lap_solver x v r t) 0 0 (0, 0) 0 0 0 0 =
     Some (6 * v, - 6)"
  by (simp add: evaluateIterationForJacEquation_def idx_range_2 jac_atom_def jac_scale_def
      point_atoms lap_atoms rd_def rd2_def host3_def double_der_coef_def rdiv_def)

lemma lap_sweep:
  "jacobian_sweep host3 (lap_solver x v r t) 0 [(0, 0, 0, 0)] = Some (lap_solver x (v - r / 6) r t)"
proof -
  have e: "(0 + 6 * v - r + 0) / (- (- 6)) = v - r / 6" by (simp add: field_simps)
  have "jacobian_sweep host3 (lap_solver x v r t) 0 [(0, 0, 0, 0)] =
     Some (lap_solver x ((0 + 6 * v - r + 0) / (- (- 6))) r t)"
    by (simp add: jacobian_sweep_def lap_jac lap_peek_poke rd2_def rd_def rdiv_def)
  then show ?thesis unfolding e .
qed

lemma lap_norm:
  "jacobian_norm host3 (lap_solver x v r t) 0 [(0, 0, 0, 0)] = Some (r * r)"
  by (simp add: jacobian_norm_def lap_der rd2_def rd_def Let_def)

lemma lap_sweeps:
  "jacobian_sweeps host3 0 [(0, 0, 0, 0)] n (lap_solver x v r t) =
     Some (lap_solver x (v - real n * (r / 6)) r t)"
proof (induction n arbitrary: v)
  case 0
  then show ?case by simp
next
  case (Suc n)
  have e: "v - r / 6 - real n * (r / 6) = v - real (Suc n) * (r / 6)" by (simp add: algebra_simps)
  have "jacobian_sweeps host3 0 [(0, 0, 0, 0)] (Suc n) (lap_solver x v r t) =
      jacobian_sweeps host3 0 [(0, 0, 0, 0)] n (lap_solver x (v - r / 6) r t)"
    by (simp add: lap_sweep)
  then show ?case unfolding Suc.IH e .
qed

lemma lap_sweep_norm:
  "sweep_norm host3 0 [(0, 0, 0, 0)] r0 n (lap_solver x v r t) =
     Some (if n = 0 then r0 else r * r)"
proof (induction n arbitrary: v r0)
  case 0
  then show ?case by simp
next
  case (Suc n)
  then show ?case by (simp add: lap_sweep lap_norm)
qed

lemma lap_jacobianRelax:
  "jacobianRelax host3 (lap_solver x v (- 1) t) 1 1 1 0 =
     Some (Ok (False, lap_solver x (167 / 2) (- 1) t))"
proof -
  have th: "threshold host3 1 1 0 = 1" by (simp add: threshold_def host3_def)
  have a: "jacobian_sweeps host3 0 [(0, 0, 0, 0)] 501 (lap_solver x 0 (- 1) t) =
      Some (lap_solver x (167 / 2) (- 1) t)"
    unfolding lap_sweeps by simp
  have b: "\<forall>m<501. goes_on host3 0 [(0, 0, 0, 0)] (threshold host3 1 1 0) 0 (10 ^ 100)
      (lap_solver x 0 (- 1) t) m"
    unfolding th by (simp add: goes_on_def lap_sweep_norm)
  have c: "ends_with host3 0 [(0, 0, 0, 0)] (threshold host3 1 1 0) 0 (10 ^ 100)
      (lap_solver x 0 (- 1) t) 501 False"
    unfolding th by (simp add: ends_with_def lap_sweep_norm)
  have "jacobianRelax host3 (lap_solver x v (- 1) t) 1 1 1 0 =
      jacobianRelax_loop host3 0 [(0, 0, 0, 0)] 1 1 0 (lap_solver x 0 (- 1) t) 0 (10 ^ 100)"
    by (simp add: jacobianRelax_def Let_def dIdx_def lap_atoms lap_init)
  with loop_run_complete [OF a b c] show ?thesis by simp
qed

lemma lap_residual: "getMaxResidualAllEqs host3 (lap_solver x v r t) 1 = Some 1"
  by (simp add: getMaxResidualAllEqs_def getMaxResidual_def dIdx_def lap_atoms lap_eval rd2_def
      rd_def Let_def)

lemma lap_jacobian_of:
  "jacobian_of host3 1 (lap_solver x v r t) =
     Some (1, Ok (False, lap_solver x (167 / 2) (- 1) t))"
proof -
  have f: "dIdx (lap_solver x v r t) 1 = 0" by (simp add: dIdx_def)
  have n: "relax_norm host3 (lap_solver x v r t) 0 [(0, 0, 0, 0)] =
      Some (1, lap_solver x v (- 1) t)"
    by (simp add: relax_norm_def lap_eval lap_peek_poke rd2_def rd_def Let_def)
  show ?thesis
    unfolding jacobian_of_def f by (simp add: lap_atoms lap_residual n lap_jacobianRelax)
qed

lemma lap_strokes:
  "VCycle_strokes host3 (lap_solver x v r t) = Some (Ok (lap_solver x (167 / 2) (- 1) x))"
proof -
  have c: "VCycle_restrict host3 (lap_solver x v r t) = Some (lap_solver x v r x)"
    by (simp add: VCycle_restrict_def copyGrid_def dIdx_def rd2_def rd_def wr2_def wr_def Let_def)
  have j: "int 0 < max_relax_iters (lap_solver x v r x)
      \<and> continued_rounds host3 (max_depth (lap_solver x v r x)) 0 (lap_solver x v r x) =
          Some (lap_solver x v r x)
      \<and> jacobian_of host3 (max_depth (lap_solver x v r x)) (lap_solver x v r x) =
          Some (1, Ok (False, lap_solver x (167 / 2) (- 1) x))"
    by (simp add: lap_jacobian_of)
  have "relaxSolution_GaussSeidel host3 (lap_solver x v r x) 1 10 =
      Some (Ok (lap_solver x (167 / 2) (- 1) x))"
    unfolding relaxSolution_GaussSeidel_def
    using rounds_break [of 0 "nat 10" host3 1 "lap_solver x v r x" "lap_solver x v r x"
        "lap_solver x (167 / 2) (- 1) x"] round_breaks [OF lap_jacobian_of [of x v r x]]
    by simp
  then have l: "VCycle_last host3 (lap_solver x v r x) = Some (Ok (lap_solver x (167 / 2) (- 1) x))"
    by (simp add: VCycle_last_def VCycle_end_def bindR_def lift_def lap_residual)
  show ?thesis
    by (simp add: VCycle_strokes_def bindR_def lift_def lap_residual c l)
qed

text \<open>
  Two equations at one site. \<open>u\<^sup>2 + 1 = 0\<close> from \<open>u = 1 / 100\<close>: the Jacobian relaxation
  converges, the Newton step leads to \<open>u = - 49.995\<close>, no trial of the line search brings
  the residual below its value at \<open>u\<close>, and the smoother throws \<open>-1\<close>. \<open>Lap u + 1 = 0\<close>, where
  the Laplacian on the only cell of a periodic grid is zero: the norm of the linearized
  residual stays at 1, the Jacobian relaxation gives up after 501 sweeps, and the smoother
  returns; a V-cycle from \<open>u = 5\<close> goes on after its first smoothing, copies \<open>u\<close> to \<open>tmp\<close>,
  smooths once more and returns.
\<close>

theorem smoother_throws_iff_line_search_fails_witness:
  "relaxSolution_GaussSeidel host3 (point_solver [square_u0, rho_alone] 1 (1 / 100) 0 0) 1 10 =
     Some (Threw (- 1))
   \<and> relaxSolution_GaussSeidel host3 (point_solver [lap_u0, rho_alone] 1 0 0 0) 1 10 =
     Some (Ok (point_solver [lap_u0, rho_alone] 1 0 (167 / 2) (- 1)))
   \<and> VCycle host3 (lap_solver 5 0 0 0) = Some (Ok (lap_solver 5 (167 / 2) (- 1) 5))"
proof (intro conjI)
  let ?s = "point_solver [square_u0, rho_alone] 1 (1 / 100) 0 0"
  have "int 0 < 10 \<and> continued_rounds host3 1 0 ?s = Some ?s
      \<and> lambda_of host3 1 ?s = Some (False, point_solver [square_u0, rho_alone] 1 (1 / 100)
           (- (10001 / 200)) (- (10001 / 10000)))"
    by (simp add: no_root_lambda_of)
  then have "\<exists>k s_k s3. int k < 10 \<and> continued_rounds host3 1 k ?s = Some s_k
         \<and> lambda_of host3 1 s_k = Some (False, s3)" by blast
  with smoother_throws_iff_line_search_fails [of host3 ?s 1 10 "- 1"]
  show "relaxSolution_GaussSeidel host3 ?s 1 10 = Some (Threw (- 1))" by blast
next
  let ?s = "lap_solver 0 0 0 0"
  let ?s2 = "lap_solver 0 (167 / 2) (- 1) 0"
  have "int 0 < 10 \<and> continued_rounds host3 1 0 ?s = Some ?s
      \<and> jacobian_of host3 1 ?s = Some (1, Ok (False, ?s2))"
    by (simp add: lap_jacobian_of)
  with smoother_throws_iff_line_search_fails [of host3 ?s 1 10 0]
  have "relaxSolution_GaussSeidel host3 ?s 1 10 = Some (Ok ?s2)" by blast
  then show "relaxSolution_GaussSeidel host3 (point_solver [lap_u0, rho_alone] 1 0 0 0) 1 10 =
     Some (Ok (point_solver [lap_u0, rho_alone] 1 0 (167 / 2) (- 1)))"
    unfolding lap_solver_point .
next
  let ?s = "lap_solver 5 0 0 0"
  let ?s2 = "lap_solver 5 (167 / 2) (- 1) 0"
  have "int 0 < max_relax_iters ?s \<and> continued_rounds host3 (max_depth ?s) 0 ?s = Some ?s
      \<and> jacobian_of host3 (max_depth ?s) ?s = Some (1, Ok (False, ?s2))"
    by (simp add: lap_jacobian_of)
  with smoother_throws_iff_line_search_fails [of host3 ?s 1 10 0]
  have "VCycle host3 ?s = VCycle_strokes host3 ?s2" by blast
  then show "VCycle host3 ?s = Some (Ok (lap_solver 5 (167 / 2) (- 1) 5))"
    by (simp add: lap_strokes)
qed

subsection \<open>Restriction\<close>

text \<open>A loop of writes: the array keeps its length, and a cell no round writes keeps its value.\<close>

lemma foldM_wr_frame:
  "foldM (\<lambda>a t. g t \<bind> wr a (ix t)) a ts = Some a' \<Longrightarrow>
   length a' = length a \<and> (\<forall>L. (\<forall>t\<in>set ts. ix t \<noteq> int L) \<longrightarrow> a' ! L = a ! L)"
proof (induction ts arbitrary: a)
  case Nil
  then show ?case by simp
next
  case (Cons t ts)
  from Cons.prems obtain v a1 where v: "g t = Some v" and a1: "wr a (ix t) v = Some a1"
    and rest: "foldM (\<lambda>a t. g t \<bind> wr a (ix t)) a1 ts = Some a'"
    by (auto split: option.splits bind_splits)
  have a1': "a1 = a[nat (ix t) := v]" "0 \<le> ix t" using a1 by (auto simp: wr_def split: if_splits)
  from Cons.IH [OF rest] have "length a' = length a1"
    "\<forall>L. (\<forall>t\<in>set ts. ix t \<noteq> int L) \<longrightarrow> a' ! L = a1 ! L" by auto
  then show ?case using a1' by (auto simp: nth_list_update)
qed


lemma rd_const:
  assumes "length a = nat (n1 * n2 * n3)" "\<forall>x\<in>set a. x = c" "0 < n1" "0 < n2" "0 < n3"
  shows "rd a (H_INDEX i j k n1 n2 n3) = Some c"
proof -
  have r: "0 \<le> H_INDEX i j k n1 n2 n3" "H_INDEX i j k n1 n2 n3 < n1 * n2 * n3"
    using H_INDEX_range [OF assms(3-5)] by auto
  then have "nat (H_INDEX i j k n1 n2 n3) < length a" using assms(1) by simp
  then show ?thesis using assms(2) r by (simp add: rd_def)
qed

lemma fine_sum_const:
  assumes "length (arr g) = nat (n1 * n2 * n3)" "\<forall>x\<in>set (arr g). x = c" "0 < n1" "0 < n2" "0 < n3"
  shows "fine_sum g fi fj fk n1 n2 n3 offs = Some (real (length offs) * c)"
proof -
  have body: "(\<lambda>acc (a, b, c).
         do { x \<leftarrow> rd (arr g) (H_INDEX (fi + a) (fj + b) (fk + c) n1 n2 n3); Some (acc + x) })
       = (\<lambda>acc t. Some (acc + c))"
    by (auto simp: fun_eq_iff rd_const [OF assms])
  have "foldM (\<lambda>acc t. Some (acc + c)) s offs = Some (s + real (length offs) * c)" for s
    by (induction offs arbitrary: s) (simp_all add: distrib_right add.assoc)
  from this [of 0] show ?thesis by (simp add: fine_sum_def body)
qed

lemma restrict_cell_const:
  assumes "length (arr g) = nat (n1 * n2 * n3)" "\<forall>x\<in>set (arr g). x = c" "0 < n1" "0 < n2" "0 < n3"
  shows "restrict_cell g fi fj fk n1 n2 n3 = Some c"
proof -
  have l: "length face_offsets = 6" "length edge_offsets = 12" "length corner_offsets = 8"
    by (simp_all add: face_offsets_def edge_offsets_def corner_offsets_def)
  show ?thesis
    by (simp add: restrict_cell_def rd_const [OF assms] fine_sum_const [OF assms] l)
qed


lemma store_load:
  "store s r gh' = Some s' \<Longrightarrow> load s' r = Some gh'"
  by (cases r) (auto simp: load_def store_def rd_def wr_def split: if_splits bind_splits)

lemma restrict_body:
  "(\<lambda>a (i, j, k). restrict_cell g (i * 2) (j * 2) (k * 2) n1 n2 n3 \<bind>
        (\<lambda>v. wr a (H_INDEX i j k m1 m2 m3) v)) =
   (\<lambda>a t. (case t of (i, j, k) \<Rightarrow> restrict_cell g (i * 2) (j * 2) (k * 2) n1 n2 n3) \<bind>
        wr a (case t of (i, j, k) \<Rightarrow> H_INDEX i j k m1 m2 m3))"
  by (auto simp: fun_eq_iff)



lemma small_sdiv [simp]: "(4::int) sdiv 2 = 2" "(2::int) sdiv 2 = 1" "(3::int) sdiv 2 = 1"
  by (simp_all add: signed_divide_int_def)


lemma restrict_h_frame:
  assumes fine: "rd gh (dIdx s fine_depth) = Some fine"
    and coarse: "rd gh (dIdx s fine_depth - 1) = Some coarse"
    and run: "restrict_h s gh fine_depth = Some gh'"
  shows "\<exists>coarse'. rd gh' (dIdx s fine_depth - 1) = Some coarse' \<and>
      length (arr coarse') = length (arr coarse) \<and>
      (\<forall>L. (nx fine sdiv 2) * (ny fine sdiv 2) * (nz fine sdiv 2) \<le> L \<longrightarrow>
         rd (arr coarse') L = rd (arr coarse) L)"
proof -
  let ?m1 = "nx fine sdiv 2" and ?m2 = "ny fine sdiv 2" and ?m3 = "nz fine sdiv 2"
  let ?g = "\<lambda>t. case t of (i, j, k) \<Rightarrow>
      restrict_cell fine (i * 2) (j * 2) (k * 2) (nx fine) (ny fine) (nz fine)"
  let ?ix = "\<lambda>t. case t of (i, j, k) \<Rightarrow> H_INDEX i j k ?m1 ?m2 ?m3"
  let ?ts = "FAS_LOOP3_N ?m1 ?m2 ?m3"
  have cr: "0 \<le> dIdx s fine_depth - 1" "dIdx s fine_depth - 1 < int (length gh)"
    using coarse by (auto simp: rd_def split: if_splits)
  from run obtain a' where
    a': "foldM (\<lambda>a t. ?g t \<bind> wr a (?ix t)) (arr coarse) ?ts = Some a'"
    and gh': "gh' = gh[nat (dIdx s fine_depth - 1) := coarse\<lparr>arr := a'\<rparr>]"
    using fine coarse cr
    by (auto simp: restrict_h_def Let_def restrict_body split: bind_splits)
  have below: "?ix t < ?m1 * ?m2 * ?m3" if "t \<in> set ?ts" for t
  proof -
    obtain i j k where ijk: "t = (i, j, k)" by (cases t)
    have "0 \<le> i" "i < ?m1" "0 \<le> j" "j < ?m2" "0 \<le> k" "k < ?m3"
      using that unfolding ijk set_FAS_LOOP3_N by auto
    then have "0 < ?m1" "0 < ?m2" "0 < ?m3" by linarith+
    from H_INDEX_range [OF this, of i j k] show ?thesis unfolding ijk by simp
  qed
  from foldM_wr_frame [OF a'] have fr: "length a' = length (arr coarse)"
    "\<And>L. (\<forall>t\<in>set ?ts. ?ix t \<noteq> int L) \<Longrightarrow> a' ! L = arr coarse ! L"
    by blast+
  have "rd a' L = rd (arr coarse) L" if "?m1 * ?m2 * ?m3 \<le> L" for L
  proof (cases "0 \<le> L \<and> L < int (length a')")
    case True
    have "\<forall>t\<in>set ?ts. ?ix t \<noteq> int (nat L)" using below that True by fastforce
    from fr(2) [OF this] show ?thesis using True fr(1) by (simp add: rd_def)
  next
    case False
    then show ?thesis using fr(1) by (auto simp: rd_def)
  qed
  moreover have "rd gh' (dIdx s fine_depth - 1) = Some (coarse\<lparr>arr := a'\<rparr>)"
    using cr gh' by (simp add: rd_def)
  ultimately show ?thesis using fr(1) by auto
qed

lemma floor_product_below_ceiling_product:
  fixes n1 n2 n3 :: int
  assumes "0 < n1" "0 < n2" "0 < n3" "odd n1 \<or> odd n2 \<or> odd n3"
  shows "(n1 sdiv 2) * (n2 sdiv 2) * (n3 sdiv 2)
     < \<lceil>real_of_int n1 / 2\<rceil> * \<lceil>real_of_int n2 / 2\<rceil> * \<lceil>real_of_int n3 / 2\<rceil>"
proof -
  have sd: "n sdiv 2 = n div 2" if "0 < n" for n :: int
    using that by (simp add: signed_divide_int_def sgn_if)
  have ce: "\<lceil>real_of_int n / 2\<rceil> = (n + 1) div 2" for n :: int
  proof -
    have "\<lceil>real_of_int n / 2\<rceil> = - ((- n) div 2)"
      using ceiling_divide_eq_div [of n 2] by simp
    then show ?thesis by presburger
  qed
  define a b c where "a = n1 div 2" and "b = n2 div 2" and "c = n3 div 2"
  define a' b' c' where "a' = (n1 + 1) div 2" and "b' = (n2 + 1) div 2" and "c' = (n3 + 1) div 2"
  have le: "0 \<le> a" "0 \<le> b" "0 \<le> c" "a \<le> a'" "b \<le> b'" "c \<le> c'" "0 < a'" "0 < b'" "0 < c'"
    using assms(1-3) unfolding a_def b_def c_def a'_def b'_def c'_def by presburger+
  have st: "a < a' \<or> b < b' \<or> c < c'"
    using assms unfolding a_def b_def c_def a'_def b'_def c'_def by presburger
  have "a * b * c < a' * b' * c'"
  proof -
    have ab: "a * b \<le> a' * b'" using le by (intro mult_mono) simp_all
    have abc: "a * b * c \<le> a' * b' * c'" using le ab by (intro mult_mono) simp_all
    from st consider "a < a'" | "b < b'" | "c < c'" by blast
    then show ?thesis
    proof cases
      case 1
      then have "a * b' < a' * b'" using le by simp
      moreover have "a * b \<le> a * b'" using le by (intro mult_left_mono) simp_all
      ultimately have "a * b < a' * b'" by linarith
      then have "a * b * c' < a' * b' * c'" using le by simp
      moreover have "a * b * c \<le> a * b * c'" using le by (intro mult_left_mono) simp_all
      ultimately show ?thesis by linarith
    next
      case 2
      then have "a' * b < a' * b'" using le by simp
      moreover have "a * b \<le> a' * b" using le by (intro mult_right_mono) simp_all
      ultimately have "a * b < a' * b'" by linarith
      then have "a * b * c' < a' * b' * c'" using le by simp
      moreover have "a * b * c \<le> a * b * c'" using le by (intro mult_left_mono) simp_all
      ultimately show ?thesis by linarith
    next
      case 3
      then have "a' * b' * c < a' * b' * c'" using le by simp
      moreover have "a * b * c \<le> a' * b' * c" using le ab by (intro mult_right_mono) simp_all
      ultimately show ?thesis by linarith
    qed
  qed
  then show ?thesis
    using assms(1-3) by (simp add: sd ce a_def b_def c_def a'_def b'_def c'_def)
qed

text \<open>
  What restriction leaves unchanged, by the linear index. It recomputes the coarse dimensions
  by floor division and uses them as the strides of the index it writes: it writes only
  entries of the coarse array with a linear index below the product of the halved dimensions,
  and every entry at or above that index keeps its value. When the fine dimensions are
  positive and one of them is odd, that product is smaller than the number of cells of the
  coarse grid of the hierarchy (the product of the ceilings).
\<close>

lemma restrict_frame:
  assumes "load s r = Some gh"
    and "rd gh (dIdx s fine_depth) = Some fine"
    and "rd gh (dIdx s fine_depth - 1) = Some coarse"
    and "restrictFine2coarse s r fine_depth = Some s'"
  shows "\<exists>gh' coarse'. load s' r = Some gh' \<and> rd gh' (dIdx s fine_depth - 1) = Some coarse' \<and>
      length (arr coarse') = length (arr coarse) \<and>
      (\<forall>L. (nx fine sdiv 2) * (ny fine sdiv 2) * (nz fine sdiv 2) \<le> L \<longrightarrow>
         rd (arr coarse') L = rd (arr coarse) L) \<and>
      (0 < nx fine \<and> 0 < ny fine \<and> 0 < nz fine \<and>
         (odd (nx fine) \<or> odd (ny fine) \<or> odd (nz fine)) \<longrightarrow>
       (nx fine sdiv 2) * (ny fine sdiv 2) * (nz fine sdiv 2)
         < \<lceil>real_of_int (nx fine) / 2\<rceil> * \<lceil>real_of_int (ny fine) / 2\<rceil>
             * \<lceil>real_of_int (nz fine) / 2\<rceil>)"
proof -
  from assms(1,4) obtain gh' where gh': "restrict_h s gh fine_depth = Some gh'"
    "store s r gh' = Some s'"
    by (auto simp: restrictFine2coarse_def split: bind_splits)
  from restrict_h_frame [OF assms(2,3) gh'(1)] store_load [OF gh'(2)]
    floor_product_below_ceiling_product [of "nx fine" "ny fine" "nz fine"]
  show ?thesis by blast
qed

lemma FAS_LOOP3_N_211: "FAS_LOOP3_N 2 1 1 = [(0, 0, 0), (1, 0, 0)]"
  by (simp add: FAS_LOOP3_N_def idx_range_def eval_nat_numeral)

lemma odd_solver_u: "u_h odd_solver = [two_level (replicate 4 0) fine_ones]"
  by (simp add: odd_solver_def)

lemma odd_solver_restrict:
  "restrictFine2coarse odd_solver (U_h 0) 2 =
     Some (odd_solver\<lparr>u_h := [two_level [1, 1, 0, 0] fine_ones]\<rparr>)"
proof -
  have cell: "restrict_cell (grid 4 2 3 fine_ones) fi fj fk 4 2 3 = Some 1" for fi fj fk
    by (rule restrict_cell_const) (simp_all add: grid_def fine_ones_def)
  have h: "restrict_h odd_solver (two_level (replicate 4 0) fine_ones) 2 =
      Some (two_level [1, 1, 0, 0] fine_ones)"
    by (simp add: restrict_h_def two_level_def dIdx_def odd_solver_def rd_def)
      (simp add: grid_def FAS_LOOP3_N_211 cell [unfolded grid_def, simplified] H_INDEX_def wr_def
        eval_nat_numeral)
  show ?thesis
    by (simp add: restrictFine2coarse_def load_def store_def odd_solver_u rd_def wr_def h)
qed

text \<open>
  Claim C10 fails on the code. The fine grid is 4 x 2 x 3 and constant 1, the coarse grid of
  the hierarchy is 2 x 1 x 2 and zero. The coarse cell (0, 0, 1) has the maximal index on the
  z axis, whose fine dimension 3 is odd, and the claim leaves it unchanged. Restriction
  computes the cells (0, 0, 0) and (1, 0, 0) and writes them with the strides of the floor
  dimensions 2 x 1 x 1, at the linear indices 0 and 1; in the coarse grid of the hierarchy,
  laid out 2 x 1 x 2, the index 1 is the cell (0, 0, 1), which changes from 0 to 1, and the
  cell (1, 0, 0) at the index 2 stays 0.
\<close>

theorem restrict_writes_maximal_index_cell:
  "restrictFine2coarse odd_solver (U_h 0) 2 =
     Some (odd_solver\<lparr>u_h := [two_level [1, 1, 0, 0] fine_ones]\<rparr>) \<and>
   rd2 (u_h odd_solver) 0 1 = Some (grid 4 2 3 fine_ones) \<and>
   rd2 (u_h odd_solver) 0 0 = Some (grid 2 1 2 (replicate 4 0)) \<and>
   peek odd_solver (U_h 0) 0 (H_INDEX 0 0 1 2 1 2) = Some 0 \<and>
   peek (odd_solver\<lparr>u_h := [two_level [1, 1, 0, 0] fine_ones]\<rparr>) (U_h 0) 0 (H_INDEX 0 0 1 2 1 2)
     = Some 1 \<and>
   peek (odd_solver\<lparr>u_h := [two_level [1, 1, 0, 0] fine_ones]\<rparr>) (U_h 0) 0 (H_INDEX 1 0 0 2 1 2)
     = Some 0"
  unfolding odd_solver_restrict
  by (simp add: peek_def load_def odd_solver_u rd_def rd2_def two_level_def grid_def H_INDEX_def)

text \<open>
  On the same grids the last two cells of the coarse array, at the linear indices 2 and 3,
  keep their value: 2 is the product of the halved dimensions.
\<close>

lemma restrict_frame_witness:
  "\<exists>s' gh' coarse'. restrictFine2coarse odd_solver (U_h 0) 2 = Some s' \<and>
     load s' (U_h 0) = Some gh' \<and> rd gh' 0 = Some coarse' \<and>
     rd (arr coarse') 2 = Some 0 \<and> rd (arr coarse') 3 = Some 0 \<and>
     (2::int) < \<lceil>real_of_int 4 / 2\<rceil> * \<lceil>real_of_int 2 / 2\<rceil> * \<lceil>real_of_int 3 / 2\<rceil>"
proof -
  let ?gh = "two_level (replicate 4 0) fine_ones"
  let ?s' = "odd_solver\<lparr>u_h := [two_level [1, 1, 0, 0] fine_ones]\<rparr>"
  have "load odd_solver (U_h 0) = Some ?gh"
    "rd ?gh (dIdx odd_solver 2) = Some (grid 4 2 3 fine_ones)"
    "rd ?gh (dIdx odd_solver 2 - 1) = Some (grid 2 1 2 (replicate 4 0))"
    "restrictFine2coarse odd_solver (U_h 0) 2 = Some ?s'"
    by (simp_all add: load_def odd_solver_u odd_solver_restrict)
      (simp_all add: two_level_def dIdx_def odd_solver_def rd_def)
  from restrict_frame [OF this] obtain gh' coarse' where
    r: "load ?s' (U_h 0) = Some gh'" "rd gh' (dIdx odd_solver 2 - 1) = Some coarse'"
      "\<forall>L. (nx (grid 4 2 3 fine_ones) sdiv 2) * (ny (grid 4 2 3 fine_ones) sdiv 2)
           * (nz (grid 4 2 3 fine_ones) sdiv 2) \<le> L \<longrightarrow>
         rd (arr coarse') L = rd (arr (grid 2 1 2 (replicate 4 0))) L"
      "0 < nx (grid 4 2 3 fine_ones) \<and> 0 < ny (grid 4 2 3 fine_ones) \<and>
       0 < nz (grid 4 2 3 fine_ones) \<and>
         (odd (nx (grid 4 2 3 fine_ones)) \<or> odd (ny (grid 4 2 3 fine_ones))
           \<or> odd (nz (grid 4 2 3 fine_ones))) \<longrightarrow>
       (nx (grid 4 2 3 fine_ones) sdiv 2) * (ny (grid 4 2 3 fine_ones) sdiv 2)
           * (nz (grid 4 2 3 fine_ones) sdiv 2)
         < \<lceil>real_of_int (nx (grid 4 2 3 fine_ones)) / 2\<rceil>
             * \<lceil>real_of_int (ny (grid 4 2 3 fine_ones)) / 2\<rceil>
             * \<lceil>real_of_int (nz (grid 4 2 3 fine_ones)) / 2\<rceil>"
    by blast
  have "rd gh' 0 = Some coarse'" using r(2) by (simp add: dIdx_def odd_solver_def)
  moreover have "rd (arr coarse') 2 = Some 0" "rd (arr coarse') 3 = Some 0"
    using r(3) [rule_format, of 2] r(3) [rule_format, of 3] by (simp_all add: grid_def rd_def)
  moreover have "(2::int) < \<lceil>real_of_int 4 / 2\<rceil> * \<lceil>real_of_int 2 / 2\<rceil> * \<lceil>real_of_int 3 / 2\<rceil>"
    using r(4) by (simp add: grid_def)
  ultimately show ?thesis using r(1) odd_solver_restrict by blast
qed

subsection \<open>Prolongation\<close>

lemma FAS_LOOP3_N_first:
  assumes "0 < n1" "0 < n2" "0 < n3"
  shows "\<exists>rest. FAS_LOOP3_N n1 n2 n3 = (0, 0, 0) # rest"
proof -
  have r: "\<exists>ks. idx_range n = 0 # ks" if "0 < n" for n
  proof -
    from that obtain m where "nat n = Suc m" by (cases "nat n") auto
    then show ?thesis by (simp add: idx_range_def upt_conv_Cons del: upt_Suc)
  qed
  from r [OF assms(1)] r [OF assms(2)] r [OF assms(3)] show ?thesis
    by (auto simp: FAS_LOOP3_N_def)
qed

lemma adj_offsets_first: "\<exists>rest. adj_offsets = (- 1, - 1, - 1) # rest"
  by (simp add: adj_offsets_def)

lemma zeroGrid_length: "zeroGrid g = Some z \<Longrightarrow> length (arr z) = length (arr g)"
proof -
  have "foldM (\<lambda>a i. wr a i 0) a is = Some a' \<Longrightarrow> length a' = length a" for a a' :: "real_t list" and "is"
    by (induction "is" arbitrary: a) (auto simp: wr_def split: option.splits if_splits)
  then show "zeroGrid g = Some z \<Longrightarrow> length (arr z) = length (arr g)"
    by (auto simp: zeroGrid_def split: bind_splits)
qed

lemma H_INDEX_last:
  assumes "0 < c1" "0 < c2" "0 < c3"
  shows "H_INDEX (0 * 2 + - 1) (0 * 2 + - 1) (0 * 2 + - 1) (c1 * 2) (c2 * 2) (c3 * 2)
    = 8 * c1 * c2 * c3 - 1"
proof -
  have m: "(- 1) mod (c * 2) = c * 2 - 1" if "0 < c" for c :: int
    using that by (simp add: zmod_minus1)
  have "H_INDEX (0 * 2 + - 1) (0 * 2 + - 1) (0 * 2 + - 1) (c1 * 2) (c2 * 2) (c3 * 2)
      = (c1 * 2 - 1) * (c2 * 2) * (c3 * 2) + (c2 * 2 - 1) * (c3 * 2) + (c3 * 2 - 1)"
    unfolding H_INDEX_def using m [OF assms(1)] m [OF assms(2)] m [OF assms(3)] by simp
  also have "\<dots> = 8 * c1 * c2 * c3 - 1" by (simp add: algebra_simps)
  finally show ?thesis .
qed

lemma ceiling_product_above:
  fixes n1 n2 n3 :: int
  assumes "0 < n1" "0 < n2" "0 < n3" "odd n1 \<or> odd n2 \<or> odd n3"
  shows "n1 * n2 * n3 < 8 * \<lceil>real_of_int n1 / 2\<rceil> * \<lceil>real_of_int n2 / 2\<rceil> * \<lceil>real_of_int n3 / 2\<rceil>"
proof -
  have ce: "\<lceil>real_of_int n / 2\<rceil> = (n + 1) div 2" for n :: int
  proof -
    have "\<lceil>real_of_int n / 2\<rceil> = - ((- n) div 2)"
      using ceiling_divide_eq_div [of n 2] by simp
    then show ?thesis by presburger
  qed
  define a b c where "a = 2 * ((n1 + 1) div 2)" and "b = 2 * ((n2 + 1) div 2)"
    and "c = 2 * ((n3 + 1) div 2)"
  have le: "n1 \<le> a" "n2 \<le> b" "n3 \<le> c" "0 < a" "0 < b" "0 < c"
    using assms(1-3) unfolding a_def b_def c_def by presburger+
  have st: "n1 < a \<or> n2 < b \<or> n3 < c"
    using assms unfolding a_def b_def c_def by presburger
  have "n1 * n2 * n3 < a * b * c"
  proof -
    from st consider "n1 < a" | "n2 < b" | "n3 < c" by blast
    then show ?thesis
    proof cases
      case 1
      then have "n1 * n2 < a * n2" using assms by simp
      moreover have "a * n2 \<le> a * b" using le by (intro mult_left_mono) simp_all
      ultimately have "n1 * n2 < a * b" by linarith
      then have "n1 * n2 * n3 < a * b * n3" using assms by simp
      moreover have "a * b * n3 \<le> a * b * c" using le by (intro mult_left_mono) simp_all
      ultimately show ?thesis by linarith
    next
      case 2
      then have "n1 * n2 < n1 * b" using assms by simp
      moreover have "n1 * b \<le> a * b" using le by (intro mult_right_mono) simp_all
      ultimately have "n1 * n2 < a * b" by linarith
      then have "n1 * n2 * n3 < a * b * n3" using assms by simp
      moreover have "a * b * n3 \<le> a * b * c" using le by (intro mult_left_mono) simp_all
      ultimately show ?thesis by linarith
    next
      case 3
      have "n1 * n2 \<le> a * b" using le assms by (intro mult_mono) simp_all
      then have "n1 * n2 * n3 \<le> a * b * n3" using assms by (intro mult_right_mono) simp_all
      moreover have "a * b * n3 < a * b * c" using 3 le by simp
      ultimately show ?thesis by linarith
    qed
  qed
  then show ?thesis unfolding ce a_def b_def c_def by (simp add: algebra_simps)
qed

lemma interpolate_short_fine_grid:
  assumes "rd (nx_h s) (dIdx s coarse_depth) = Some c1"
    and "rd (ny_h s) (dIdx s coarse_depth) = Some c2"
    and "rd (nz_h s) (dIdx s coarse_depth) = Some c3"
    and "0 < c1" "0 < c2" "0 < c3"
    and "rd gh (dIdx s (coarse_depth + 1)) = Some fine"
    and "int (length (arr fine)) < 8 * c1 * c2 * c3"
  shows "interpolate_h s gh coarse_depth = None"
proof (cases "rd gh (dIdx s coarse_depth)")
  case None
  with assms show ?thesis by (simp add: interpolate_h_def Let_def)
next
  case coarse: (Some coarse_grid)
  show ?thesis
  proof (cases "zeroGrid fine")
    case None
    with assms coarse show ?thesis by (simp add: interpolate_h_def Let_def)
  next
    case (Some zeroed)
    obtain rest where cells: "FAS_LOOP3_N c1 c2 c3 = (0, 0, 0) # rest"
      using FAS_LOOP3_N_first [OF assms(4-6)] by blast
    obtain adjs where adjs: "adj_offsets = (- 1, - 1, - 1) # adjs"
      using adj_offsets_first by blast
    have short: "\<not> 8 * c1 * c2 * c3 - 1 < int (length (arr zeroed))"
      using zeroGrid_length [OF Some] assms(8) by simp
    have first: "interpolate_adj c1 c2 c3 v (0 * 2) (0 * 2) (0 * 2) (arr zeroed) (- 1, - 1, - 1) = None"
      for v
      using short H_INDEX_last [OF assms(4-6)]
      by (simp add: interpolate_adj_def Let_def rd_def)
    have "foldM (\<lambda>a (i, j, k).
                 do {
                   coarse_grid_val \<leftarrow> rd (arr coarse_grid) (H_INDEX i j k c1 c2 c3);
                   foldM (interpolate_adj c1 c2 c3 coarse_grid_val (i * 2) (j * 2) (k * 2))
                     a adj_offsets
                 })
               (arr zeroed) (FAS_LOOP3_N c1 c2 c3) = None"
      unfolding cells adjs using first by (simp split: bind_splits option.splits)
    then show ?thesis using assms coarse Some by (simp add: interpolate_h_def Let_def)
  qed
qed

lemma interpolate_odd_fine_dimension:
  assumes "rd (nx_h s) (dIdx s coarse_depth) = Some \<lceil>real_of_int (nx fine) / 2\<rceil>"
    and "rd (ny_h s) (dIdx s coarse_depth) = Some \<lceil>real_of_int (ny fine) / 2\<rceil>"
    and "rd (nz_h s) (dIdx s coarse_depth) = Some \<lceil>real_of_int (nz fine) / 2\<rceil>"
    and "load s r = Some gh" "rd gh (dIdx s (coarse_depth + 1)) = Some fine"
    and "int (length (arr fine)) = nx fine * ny fine * nz fine"
    and "0 < nx fine" "0 < ny fine" "0 < nz fine"
    and "odd (nx fine) \<or> odd (ny fine) \<or> odd (nz fine)"
  shows "interpolateCoarse2fine s r coarse_depth = None"
proof -
  have pos: "0 < \<lceil>real_of_int (nx fine) / 2\<rceil>" "0 < \<lceil>real_of_int (ny fine) / 2\<rceil>"
    "0 < \<lceil>real_of_int (nz fine) / 2\<rceil>"
    using assms(7-9) by simp_all
  have "int (length (arr fine)) < 8 * \<lceil>real_of_int (nx fine) / 2\<rceil>
      * \<lceil>real_of_int (ny fine) / 2\<rceil> * \<lceil>real_of_int (nz fine) / 2\<rceil>"
    unfolding assms(6) by (rule ceiling_product_above [OF assms(7-10)])
  from interpolate_short_fine_grid [OF assms(1-3) pos assms(5) this] assms(4)
  show ?thesis by (simp add: interpolateCoarse2fine_def)
qed

text \<open>
  Claim C5 fails on the code. The hierarchy is the one of \<^verbatim>\<open>NX = 4\<close>, \<^verbatim>\<open>NY = 2\<close>,
  \<^verbatim>\<open>NZ = 3\<close>: a fine grid 4 x 2 x 3 of 24 cells above a coarse grid 2 x 1 x 2, here constant 1
  in \<open>tmp_h\<close>. \<^verbatim>\<open>_interpolateCoarse2fine\<close> takes the fine dimensions to be twice the coarse
  ones, 4 x 2 x 4; the first cell it adds to, for the coarse cell (0, 0, 0) and the offsets
  (-1, -1, -1), has the linear index 31, which is outside the fine array, and no fine grid
  comes back.
\<close>

theorem prolongation_leaves_odd_fine_grid:
  "interpolateCoarse2fine
       (odd_solver\<lparr>tmp_h := [two_level (replicate 4 1) (replicate 24 0)]\<rparr>) (Tmp_h 0) 1 = None
   \<and> rd2 (tmp_h (odd_solver\<lparr>tmp_h := [two_level (replicate 4 1) (replicate 24 0)]\<rparr>)) 0 0 =
       Some (grid 2 1 2 (replicate 4 1))
   \<and> rd2 (tmp_h (odd_solver\<lparr>tmp_h := [two_level (replicate 4 1) (replicate 24 0)]\<rparr>)) 0 1 =
       Some (grid 4 2 3 (replicate 24 0))
   \<and> H_INDEX (0 * 2 + - 1) (0 * 2 + - 1) (0 * 2 + - 1) (2 * 2) (1 * 2) (2 * 2) = 31"
proof -
  let ?s = "odd_solver\<lparr>tmp_h := [two_level (replicate 4 1) (replicate 24 0)]\<rparr>"
  let ?gh = "two_level (replicate 4 1) (replicate 24 0)"
  have d: "dIdx ?s 1 = 0" "dIdx ?s (1 + 1) = 1" by (simp_all add: dIdx_def odd_solver_def)
  have n: "rd (nx_h ?s) (dIdx ?s 1) = Some 2" "rd (ny_h ?s) (dIdx ?s 1) = Some 1"
    "rd (nz_h ?s) (dIdx ?s 1) = Some 2"
    unfolding d by (simp_all add: odd_solver_def rd_def)
  have f: "rd ?gh (dIdx ?s (1 + 1)) = Some (grid 4 2 3 (replicate 24 0))"
    unfolding d by (simp add: two_level_def rd_def)
  have l: "load ?s (Tmp_h 0) = Some ?gh" by (simp add: load_def rd_def)
  have "interpolate_h ?s ?gh 1 = None"
    by (rule interpolate_short_fine_grid [OF n _ _ _ f]) simp_all
  then have "interpolateCoarse2fine ?s (Tmp_h 0) 1 = None"
    using l by (simp add: interpolateCoarse2fine_def)
  moreover have "rd2 (tmp_h ?s) 0 0 = Some (grid 2 1 2 (replicate 4 1))"
    "rd2 (tmp_h ?s) 0 1 = Some (grid 4 2 3 (replicate 24 0))"
    by (simp_all add: rd2_def rd_def two_level_def)
  moreover have "H_INDEX (0 * 2 + - 1) (0 * 2 + - 1) (0 * 2 + - 1) (2 * 2) (1 * 2) (2 * 2) = 31"
    by (simp add: H_INDEX_def)
  ultimately show ?thesis by simp
qed

text \<open>
  Where every fine dimension is twice the coarse one, each fine cell gets shares that sum to
  the constant: per axis, an even fine cell takes all of one coarse cell and an odd one takes
  half of each of its two neighbours.
\<close>

lemma foldM_concat:
  "foldM f a (concat xss) = foldM (\<lambda>a xs. foldM f a xs) a xss"
  by (induction xss arbitrary: a) (auto simp: foldM_append split: option.splits)

lemma foldM_map: "foldM f a (map g xs) = foldM (\<lambda>a x. f a (g x)) a xs"
  by (induction xs arbitrary: a) (auto split: option.splits)

lemma foldM_cong_set:
  "(\<And>a x. x \<in> set xs \<Longrightarrow> f a x = g a x) \<Longrightarrow> foldM f a xs = foldM g a xs"
  by (induction xs arbitrary: a) (auto split: option.splits)

text \<open>Adding \<open>w\<close> at the index \<open>L\<close>, for a list of pairs \<open>(L, w)\<close>.\<close>

lemma foldM_add:
  fixes a :: "real_t list"
  shows "\<forall>t\<in>set ts. 0 \<le> fst t \<and> fst t < int (length a) \<Longrightarrow>
   foldM (\<lambda>a t. do { x \<leftarrow> rd a (fst t); wr a (fst t) (x + snd t) }) a ts =
     Some (map (\<lambda>n. a ! n + sum_list (map snd (filter (\<lambda>t. fst t = int n) ts))) [0..<length a])"
proof (induction ts arbitrary: a)
  case Nil
  then show ?case by (simp add: map_nth)
next
  case (Cons t ts)
  let ?a1 = "a[nat (fst t) := a ! nat (fst t) + snd t]"
  have t: "0 \<le> fst t" "fst t < int (length a)" using Cons.prems by auto
  have step: "do { x \<leftarrow> rd a (fst t); wr a (fst t) (x + snd t) } = Some ?a1"
    using t by simp
  have "\<forall>t\<in>set ts. 0 \<le> fst t \<and> fst t < int (length ?a1)" using Cons.prems by simp
  from Cons.IH [OF this]
  have "foldM (\<lambda>a t. do { x \<leftarrow> rd a (fst t); wr a (fst t) (x + snd t) }) a (t # ts) =
      Some (map (\<lambda>n. ?a1 ! n + sum_list (map snd (filter (\<lambda>t. fst t = int n) ts)))
        [0..<length ?a1])"
    using step by simp
  moreover have "map (\<lambda>n. ?a1 ! n + sum_list (map snd (filter (\<lambda>t. fst t = int n) ts)))
        [0..<length ?a1] =
      map (\<lambda>n. a ! n + sum_list (map snd (filter (\<lambda>t. fst t = int n) (t # ts))))
        [0..<length a]"
  proof (rule nth_equalityI)
    show "length (map (\<lambda>n. ?a1 ! n + sum_list (map snd (filter (\<lambda>t. fst t = int n) ts)))
        [0..<length ?a1]) =
      length (map (\<lambda>n. a ! n + sum_list (map snd (filter (\<lambda>t. fst t = int n) (t # ts))))
        [0..<length a])" by simp
  next
    fix n
    assume "n < length (map (\<lambda>n. ?a1 ! n + sum_list (map snd (filter (\<lambda>t. fst t = int n) ts)))
        [0..<length ?a1])"
    then have n: "n < length a" by simp
    show "map (\<lambda>n. ?a1 ! n + sum_list (map snd (filter (\<lambda>t. fst t = int n) ts)))
        [0..<length ?a1] ! n =
      map (\<lambda>n. a ! n + sum_list (map snd (filter (\<lambda>t. fst t = int n) (t # ts))))
        [0..<length a] ! n"
    proof (cases "fst t = int n")
      case True
      then have "nat (fst t) = n" by simp
      with n True show ?thesis by (simp add: add.assoc)
    next
      case False
      then have "nat (fst t) \<noteq> n" using t by auto
      with n False show ?thesis by simp
    qed
  qed
  ultimately show ?case by simp
qed

lemma zeroGrid_zero:
  assumes "pts g = int (length (arr g))"
  shows "zeroGrid g = Some (g\<lparr>arr := replicate (length (arr g)) 0\<rparr>)"
proof -
  have "k \<le> length a \<Longrightarrow>
      foldM (\<lambda>a i. wr a i 0) a (idx_range (int k)) =
        Some (map (\<lambda>n. if n < k then 0 else a ! n) [0..<length a])"
    for k and a :: "real_t list"
  proof (induction k)
    case 0
    then show ?case by (simp add: idx_range_def map_nth)
  next
    case (Suc k)
    then have k: "k < length a" by simp
    have "(map (\<lambda>n. if n < k then 0 else a ! n) [0..<length a])[k := 0] =
        map (\<lambda>n. if n < Suc k then 0 else a ! n) [0..<length a]"
      using k by (intro nth_equalityI) (auto simp: nth_list_update less_Suc_eq)
    then show ?case unfolding idx_range_Suc foldM_append using Suc k by simp
  qed
  moreover have "map (\<lambda>n. if n < length (arr g) then 0 else arr g ! n) [0..<length (arr g)] =
      replicate (length (arr g)) 0"
    by (intro nth_equalityI) simp_all
  ultimately have "foldM (\<lambda>a i. wr a i 0) (arr g) (idx_range (int (length (arr g)))) =
      Some (replicate (length (arr g)) 0)"
    by simp
  then show ?thesis using assms by (simp add: zeroGrid_def)
qed

lemma sum_list_idx_range: "(\<Sum>i\<leftarrow>idx_range n. f i) = sum f {0..<n}"
proof -
  have "distinct (idx_range n)" by (simp add: idx_range_def distinct_map)
  then show ?thesis by (simp add: sum_list_distinct_conv_sum_set set_idx_range)
qed

lemma sum_single:
  fixes v :: real_t and c :: int
  shows "(\<Sum>i\<in>{0..<n}. if P \<and> i = c then v else 0) = (if P \<and> 0 \<le> c \<and> c < n then v else 0)"
proof (cases P)
  case True
  then have "(\<Sum>i\<in>{0..<n}. if P \<and> i = c then v else 0) = (\<Sum>i\<in>{0..<n}. if c = i then v else 0)"
    by (intro sum.cong) auto
  then show ?thesis using True by (simp add: sum.delta)
next
  case False
  then show ?thesis by simp
qed

lemma axis_weight_sum:
  assumes "0 < n" "0 \<le> f" "f < n * 2"
  shows "(\<Sum>i\<leftarrow>idx_range n. \<Sum>a\<leftarrow>[- 1, 0, 1]. axis_weight n f i a) = 1"
proof -
  have m0: "(i * 2 + 0) mod (n * 2) = i * 2" if "0 \<le> i" "i < n" for i
    using that by (simp add: mod_pos_pos_trivial)
  have m1: "(i * 2 + 1) mod (n * 2) = i * 2 + 1" if "0 \<le> i" "i < n" for i
    using that by (simp add: mod_pos_pos_trivial)
  have m2: "(i * 2 + - 1) mod (n * 2) = (if i = 0 then n * 2 - 1 else i * 2 - 1)"
    if "0 \<le> i" "i < n" for i
    using that assms(1) by (auto simp: mod_pos_pos_trivial zmod_minus1)
  have e0: "i * 2 = f \<longleftrightarrow> even f \<and> i = f div 2" for i by presburger
  have e1: "i * 2 + 1 = f \<longleftrightarrow> odd f \<and> i = f div 2" for i by presburger
  have e2: "(if i = 0 then n * 2 - 1 else i * 2 - 1) = f \<longleftrightarrow>
      odd f \<and> i = (if f div 2 + 1 = n then 0 else f div 2 + 1)"
    if "0 \<le> i" "i < n" for i
    using that assms by presburger
  have w0: "axis_weight n f i 0 = (if even f \<and> i = f div 2 then 1 else 0)"
    if "i \<in> {0..<n}" for i
    unfolding axis_weight_def using m0 [of i] that by (simp add: e0)
  have w1: "axis_weight n f i 1 = (if odd f \<and> i = f div 2 then 1 / 2 else 0)"
    if "i \<in> {0..<n}" for i
    unfolding axis_weight_def using m1 [of i] that by (simp add: e1)
  have w2: "axis_weight n f i (- 1) =
      (if odd f \<and> i = (if f div 2 + 1 = n then 0 else f div 2 + 1) then 1 / 2 else 0)"
    if "i \<in> {0..<n}" for i
  proof -
    have i: "0 \<le> i" "i < n" using that by auto
    show ?thesis unfolding axis_weight_def m2 [OF i] e2 [OF i] by simp
  qed
  have "(\<Sum>i\<leftarrow>idx_range n. \<Sum>a\<leftarrow>[- 1, 0, 1]. axis_weight n f i a) =
      (\<Sum>i\<in>{0..<n}. axis_weight n f i (- 1)) + (\<Sum>i\<in>{0..<n}. axis_weight n f i 0)
        + (\<Sum>i\<in>{0..<n}. axis_weight n f i 1)"
    by (simp add: sum_list_idx_range sum.distrib)
  also have "(\<Sum>i\<in>{0..<n}. axis_weight n f i 0) = (if even f \<and> 0 \<le> f div 2 \<and> f div 2 < n then 1 else 0)"
  proof -
    have "(\<Sum>i\<in>{0..<n}. axis_weight n f i 0) =
        (\<Sum>i\<in>{0..<n}. if even f \<and> i = f div 2 then 1 else 0)"
      by (rule sum.cong) (simp_all only: w0)
    then show ?thesis unfolding sum_single .
  qed
  also have "(\<Sum>i\<in>{0..<n}. axis_weight n f i 1) = (if odd f \<and> 0 \<le> f div 2 \<and> f div 2 < n then 1 / 2 else 0)"
  proof -
    have "(\<Sum>i\<in>{0..<n}. axis_weight n f i 1) =
        (\<Sum>i\<in>{0..<n}. if odd f \<and> i = f div 2 then 1 / 2 else 0)"
      by (rule sum.cong) (simp_all only: w1)
    then show ?thesis unfolding sum_single .
  qed
  also have "(\<Sum>i\<in>{0..<n}. axis_weight n f i (- 1)) =
      (if odd f \<and> 0 \<le> (if f div 2 + 1 = n then 0 else f div 2 + 1)
         \<and> (if f div 2 + 1 = n then 0 else f div 2 + 1) < n then 1 / 2 else 0)"
  proof -
    have "(\<Sum>i\<in>{0..<n}. axis_weight n f i (- 1)) =
        (\<Sum>i\<in>{0..<n}. if odd f \<and> i = (if f div 2 + 1 = n then 0 else f div 2 + 1)
           then 1 / 2 else 0)"
      by (rule sum.cong) (simp_all only: w2)
    then show ?thesis unfolding sum_single .
  qed
  finally have s: "(\<Sum>i\<leftarrow>idx_range n. \<Sum>a\<leftarrow>[- 1, 0, 1]. axis_weight n f i a) =
      (if odd f \<and> 0 \<le> (if f div 2 + 1 = n then 0 else f div 2 + 1)
         \<and> (if f div 2 + 1 = n then 0 else f div 2 + 1) < n then 1 / 2 else 0)
      + (if even f \<and> 0 \<le> f div 2 \<and> f div 2 < n then 1 else 0)
      + (if odd f \<and> 0 \<le> f div 2 \<and> f div 2 < n then 1 / 2 else 0)" .
  have r: "0 \<le> f div 2" "f div 2 < n" "0 \<le> (if f div 2 + 1 = n then 0 else f div 2 + 1)"
    "(if f div 2 + 1 = n then 0 else f div 2 + 1) < n"
    using assms by presburger+
  show ?thesis unfolding s using r by (cases "even f") simp_all
qed

lemma index_decompose:
  fixes x y z f1 f2 f3 m2 m3 :: int
  assumes "0 \<le> y" "y < m2" "0 \<le> z" "z < m3" "0 \<le> f2" "f2 < m2" "0 \<le> f3" "f3 < m3"
  shows "x * m2 * m3 + y * m3 + z = f1 * m2 * m3 + f2 * m3 + f3 \<longleftrightarrow> x = f1 \<and> y = f2 \<and> z = f3"
proof
  assume e: "x * m2 * m3 + y * m3 + z = f1 * m2 * m3 + f2 * m3 + f3"
  have l: "x * m2 * m3 + y * m3 + z = z + (x * m2 + y) * m3"
    and r: "f1 * m2 * m3 + f2 * m3 + f3 = f3 + (f1 * m2 + f2) * m3"
    by (simp_all add: algebra_simps)
  from e have "(z + (x * m2 + y) * m3) mod m3 = (f3 + (f1 * m2 + f2) * m3) mod m3"
    unfolding l r by simp
  then have z: "z = f3" using assms by (simp add: mod_pos_pos_trivial)
  with e have "(x * m2 + y) * m3 = (f1 * m2 + f2) * m3" unfolding l r by simp
  then have e2: "y + x * m2 = f2 + f1 * m2" using assms by (simp add: add.commute)
  then have "(y + x * m2) mod m2 = (f2 + f1 * m2) mod m2" by simp
  then have y: "y = f2" using assms by (simp add: mod_pos_pos_trivial)
  with e2 have "x = f1" using assms by simp
  with y z show "x = f1 \<and> y = f2 \<and> z = f3" by simp
next
  assume "x = f1 \<and> y = f2 \<and> z = f3"
  then show "x * m2 * m3 + y * m3 + z = f1 * m2 * m3 + f2 * m3 + f3" by simp
qed

lemma cell_weight:
  assumes "0 < c1" "0 < c2" "0 < c3" "0 \<le> f2" "f2 < c2 * 2" "0 \<le> f3" "f3 < c3 * 2"
  shows "(if H_INDEX (i * 2 + a) (j * 2 + b) (k * 2 + c) (c1 * 2) (c2 * 2) (c3 * 2)
            = f1 * (c2 * 2) * (c3 * 2) + f2 * (c3 * 2) + f3
          then v / 2 ^ nat (\<bar>a\<bar> + \<bar>b\<bar> + \<bar>c\<bar>) else 0) =
         v * axis_weight c1 f1 i a * axis_weight c2 f2 j b * axis_weight c3 f3 k c"
proof -
  have p: "(2::real_t) ^ nat (\<bar>a\<bar> + \<bar>b\<bar> + \<bar>c\<bar>) = 2 ^ nat \<bar>a\<bar> * 2 ^ nat \<bar>b\<bar> * 2 ^ nat \<bar>c\<bar>"
    by (simp add: nat_add_distrib power_add)
  have "H_INDEX (i * 2 + a) (j * 2 + b) (k * 2 + c) (c1 * 2) (c2 * 2) (c3 * 2)
        = f1 * (c2 * 2) * (c3 * 2) + f2 * (c3 * 2) + f3 \<longleftrightarrow>
      (i * 2 + a) mod (c1 * 2) = f1 \<and> (j * 2 + b) mod (c2 * 2) = f2
        \<and> (k * 2 + c) mod (c3 * 2) = f3"
    unfolding H_INDEX_def
    by (rule index_decompose) (use assms in simp_all)
  then show ?thesis unfolding p by (simp add: axis_weight_def)
qed

lemma sum_list_map_concat:
  fixes g :: "'a \<Rightarrow> real_t"
  shows "sum_list (map g (concat (map F xs))) = (\<Sum>x\<leftarrow>xs. sum_list (map g (F x)))"
  by (induction xs) simp_all

lemma sum_list_nested:
  fixes g :: "'a \<times> 'b \<times> 'c \<Rightarrow> real_t"
  shows "sum_list (map g (concat (map (\<lambda>a. concat (map (\<lambda>b. map (\<lambda>c. (a, b, c)) C) B)) A))) =
     (\<Sum>a\<leftarrow>A. \<Sum>b\<leftarrow>B. \<Sum>c\<leftarrow>C. g (a, b, c))"
  by (simp add: sum_list_map_concat comp_def)

lemma sum_list_factor:
  fixes v :: real_t
  shows "(\<Sum>i\<leftarrow>I. \<Sum>j\<leftarrow>J. \<Sum>k\<leftarrow>K. \<Sum>a\<leftarrow>A. \<Sum>b\<leftarrow>B. \<Sum>c\<leftarrow>C. v * w1 i a * w2 j b * w3 k c) =
     v * (\<Sum>i\<leftarrow>I. \<Sum>a\<leftarrow>A. w1 i a) * (\<Sum>j\<leftarrow>J. \<Sum>b\<leftarrow>B. w2 j b) * (\<Sum>k\<leftarrow>K. \<Sum>c\<leftarrow>C. w3 k c)"
  by (simp add: sum_list_const_mult sum_list_mult_const)

lemma div_less_factor:
  fixes L m q :: int
  assumes "0 < m" "L < q * m"
  shows "L div m < q"
proof -
  have "L div m * m + L mod m = L" by (rule div_mult_mod_eq)
  moreover have "0 \<le> L mod m" using assms(1) by simp
  ultimately have "L div m * m < q * m" using assms(2) by linarith
  then show ?thesis using assms(1) by (simp add: mult_less_cancel_right_pos)
qed

lemma fine_cell_total:
  assumes "0 < c1" "0 < c2" "0 < c3" "0 \<le> L" "L < (c1 * 2) * (c2 * 2) * (c3 * 2)"
  shows "sum_list (map snd (filter (\<lambda>t. fst t = L) (prolong_terms c1 c2 c3 v))) = v"
proof -
  define f3 where "f3 = L mod (c3 * 2)"
  define f2 where "f2 = (L div (c3 * 2)) mod (c2 * 2)"
  define f1 where "f1 = (L div (c3 * 2)) div (c2 * 2)"
  have "L = (L div (c3 * 2)) * (c3 * 2) + f3"
    unfolding f3_def by (rule div_mult_mod_eq [symmetric])
  moreover have "L div (c3 * 2) = f1 * (c2 * 2) + f2"
    unfolding f1_def f2_def by (rule div_mult_mod_eq [symmetric])
  ultimately have "L = (f1 * (c2 * 2) + f2) * (c3 * 2) + f3" by (simp only:)
  then have L: "L = f1 * (c2 * 2) * (c3 * 2) + f2 * (c3 * 2) + f3"
    by (simp only: distrib_right)
  have r: "0 \<le> f3" "f3 < c3 * 2" "0 \<le> f2" "f2 < c2 * 2"
    unfolding f2_def f3_def using assms(2,3) by simp_all
  have "0 \<le> L div (c3 * 2)" using assms(3,4) by (simp add: pos_imp_zdiv_nonneg_iff)
  then have f1: "0 \<le> f1" unfolding f1_def using assms(2) by (simp add: pos_imp_zdiv_nonneg_iff)
  have p2: "0 < c2 * 2" and p3: "0 < c3 * 2" using assms(2,3) by simp_all
  have "L div (c3 * 2) < (c1 * 2) * (c2 * 2)"
    using assms(5) by (intro div_less_factor [OF p3]) simp
  then have f1': "f1 < c1 * 2" unfolding f1_def
    by (rule div_less_factor [OF p2])
  have inner: "sum_list (map (\<lambda>t. if fst t = L then snd t else 0)
        (map (\<lambda>(a, b, c).
             (H_INDEX (i * 2 + a) (j * 2 + b) (k * 2 + c) (c1 * 2) (c2 * 2) (c3 * 2),
              v / 2 ^ nat (\<bar>a\<bar> + \<bar>b\<bar> + \<bar>c\<bar>)))
           adj_offsets)) =
      (\<Sum>a\<leftarrow>[- 1, 0, 1]. \<Sum>b\<leftarrow>[- 1, 0, 1]. \<Sum>c\<leftarrow>[- 1, 0, 1].
           (if H_INDEX (i * 2 + a) (j * 2 + b) (k * 2 + c) (c1 * 2) (c2 * 2) (c3 * 2) = L
            then v / 2 ^ nat (\<bar>a\<bar> + \<bar>b\<bar> + \<bar>c\<bar>) else 0))" for i j k
    by (simp add: adj_offsets_def)
  have "sum_list (map snd (filter (\<lambda>t. fst t = L) (prolong_terms c1 c2 c3 v))) =
      sum_list (map (\<lambda>t. if fst t = L then snd t else 0) (prolong_terms c1 c2 c3 v))"
    by (rule sum_list_map_filter')
  also have "\<dots> = (\<Sum>cell\<leftarrow>FAS_LOOP3_N c1 c2 c3. case cell of (i, j, k) \<Rightarrow>
      (\<Sum>a\<leftarrow>[- 1, 0, 1]. \<Sum>b\<leftarrow>[- 1, 0, 1]. \<Sum>c\<leftarrow>[- 1, 0, 1].
           (if H_INDEX (i * 2 + a) (j * 2 + b) (k * 2 + c) (c1 * 2) (c2 * 2) (c3 * 2) = L
            then v / 2 ^ nat (\<bar>a\<bar> + \<bar>b\<bar> + \<bar>c\<bar>) else 0)))"
    unfolding prolong_terms_def sum_list_map_concat
    by (rule arg_cong [where f = sum_list], rule map_cong) (auto simp only: inner split_conv)
  also have "\<dots> =
      (\<Sum>i\<leftarrow>idx_range c1. \<Sum>j\<leftarrow>idx_range c2. \<Sum>k\<leftarrow>idx_range c3.
         \<Sum>a\<leftarrow>[- 1, 0, 1]. \<Sum>b\<leftarrow>[- 1, 0, 1]. \<Sum>c\<leftarrow>[- 1, 0, 1].
           (if H_INDEX (i * 2 + a) (j * 2 + b) (k * 2 + c) (c1 * 2) (c2 * 2) (c3 * 2) = L
            then v / 2 ^ nat (\<bar>a\<bar> + \<bar>b\<bar> + \<bar>c\<bar>) else 0))"
    unfolding FAS_LOOP3_N_def sum_list_nested by (simp only: split_conv)
  also have "\<dots> =
      (\<Sum>i\<leftarrow>idx_range c1. \<Sum>j\<leftarrow>idx_range c2. \<Sum>k\<leftarrow>idx_range c3.
         \<Sum>a\<leftarrow>[- 1, 0, 1]. \<Sum>b\<leftarrow>[- 1, 0, 1]. \<Sum>c\<leftarrow>[- 1, 0, 1].
           v * axis_weight c1 f1 i a * axis_weight c2 f2 j b * axis_weight c3 f3 k c)"
    unfolding L cell_weight [OF assms(1-3) r(3,4,1,2)] ..
  also have "\<dots> = v * (\<Sum>i\<leftarrow>idx_range c1. \<Sum>a\<leftarrow>[- 1, 0, 1]. axis_weight c1 f1 i a)
      * (\<Sum>j\<leftarrow>idx_range c2. \<Sum>b\<leftarrow>[- 1, 0, 1]. axis_weight c2 f2 j b)
      * (\<Sum>k\<leftarrow>idx_range c3. \<Sum>c\<leftarrow>[- 1, 0, 1]. axis_weight c3 f3 k c)"
    by (rule sum_list_factor)
  also have "\<dots> = v"
    unfolding axis_weight_sum [OF assms(1) f1 f1'] axis_weight_sum [OF assms(2) r(3,4)]
      axis_weight_sum [OF assms(3) r(1,2)] by simp
  finally show ?thesis .
qed

lemma interpolate_adj_add:
  "interpolate_adj c1 c2 c3 v fi fj fk a (ia, ja, ka) =
     do {
       x \<leftarrow> rd a (H_INDEX (fi + ia) (fj + ja) (fk + ka) (c1 * 2) (c2 * 2) (c3 * 2));
       wr a (H_INDEX (fi + ia) (fj + ja) (fk + ka) (c1 * 2) (c2 * 2) (c3 * 2))
         (x + v / 2 ^ nat (\<bar>ia\<bar> + \<bar>ja\<bar> + \<bar>ka\<bar>))
     }"
  by (simp add: interpolate_adj_def Let_def)

lemma prolong_fold:
  assumes "\<forall>cell\<in>set (FAS_LOOP3_N c1 c2 c3).
      rd coarse (case cell of (i, j, k) \<Rightarrow> H_INDEX i j k c1 c2 c3) = Some v"
  shows "foldM (\<lambda>a (i, j, k).
             do {
               coarse_grid_val \<leftarrow> rd coarse (H_INDEX i j k c1 c2 c3);
               foldM (interpolate_adj c1 c2 c3 coarse_grid_val (i * 2) (j * 2) (k * 2))
                 a adj_offsets
             })
           a0 (FAS_LOOP3_N c1 c2 c3) =
         foldM (\<lambda>a t. do { x \<leftarrow> rd a (fst t); wr a (fst t) (x + snd t) }) a0
           (prolong_terms c1 c2 c3 v)"
proof -
  have cell: "do {
               coarse_grid_val \<leftarrow> rd coarse (H_INDEX i j k c1 c2 c3);
               foldM (interpolate_adj c1 c2 c3 coarse_grid_val (i * 2) (j * 2) (k * 2))
                 a adj_offsets
             } =
      foldM (\<lambda>a t. do { x \<leftarrow> rd a (fst t); wr a (fst t) (x + snd t) }) a
        (map (\<lambda>(ia, ja, ka).
             (H_INDEX (i * 2 + ia) (j * 2 + ja) (k * 2 + ka) (c1 * 2) (c2 * 2) (c3 * 2),
              v / 2 ^ nat (\<bar>ia\<bar> + \<bar>ja\<bar> + \<bar>ka\<bar>)))
           adj_offsets)"
    if "(i, j, k) \<in> set (FAS_LOOP3_N c1 c2 c3)" for a i j k
  proof -
    have "rd coarse (H_INDEX i j k c1 c2 c3) = Some v" using assms that by auto
    moreover have "foldM (interpolate_adj c1 c2 c3 v (i * 2) (j * 2) (k * 2)) a adj_offsets =
        foldM (\<lambda>a adj. (\<lambda>a t. do { x \<leftarrow> rd a (fst t); wr a (fst t) (x + snd t) }) a
          ((\<lambda>(ia, ja, ka).
             (H_INDEX (i * 2 + ia) (j * 2 + ja) (k * 2 + ka) (c1 * 2) (c2 * 2) (c3 * 2),
              v / 2 ^ nat (\<bar>ia\<bar> + \<bar>ja\<bar> + \<bar>ka\<bar>))) adj)) a adj_offsets"
      by (rule foldM_cong_set) (auto simp: interpolate_adj_add)
    ultimately show ?thesis by (simp only: foldM_map bind.bind_lunit)
  qed
  show ?thesis
    unfolding prolong_terms_def foldM_concat foldM_map
    by (rule foldM_cong_set) (auto simp only: cell split_conv)
qed

lemma interpolate_constant:
  assumes n: "rd (nx_h s) (dIdx s coarse_depth) = Some c1"
      "rd (ny_h s) (dIdx s coarse_depth) = Some c2" "rd (nz_h s) (dIdx s coarse_depth) = Some c3"
    and pos: "0 < c1" "0 < c2" "0 < c3"
    and coarse: "rd gh (dIdx s coarse_depth) = Some coarse"
      "length (arr coarse) = nat (c1 * c2 * c3)" "\<forall>x\<in>set (arr coarse). x = v"
    and fine: "rd gh (dIdx s (coarse_depth + 1)) = Some fine"
      "int (length (arr fine)) = (c1 * 2) * (c2 * 2) * (c3 * 2)"
      "pts fine = int (length (arr fine))"
  shows "\<exists>gh' fine'. interpolate_h s gh coarse_depth = Some gh'
    \<and> rd gh' (dIdx s (coarse_depth + 1)) = Some fine'
    \<and> length (arr fine') = length (arr fine) \<and> (\<forall>x\<in>set (arr fine'). x = v)"
proof -
  let ?N = "length (arr fine)"
  let ?a0 = "replicate ?N (0::real_t)"
  let ?terms = "prolong_terms c1 c2 c3 v"
  let ?a' = "map (\<lambda>n. ?a0 ! n + sum_list (map snd (filter (\<lambda>t. fst t = int n) ?terms))) [0..<?N]"
  have z: "zeroGrid fine = Some (fine\<lparr>arr := ?a0\<rparr>)" by (rule zeroGrid_zero [OF fine(3)])
  have rdc: "\<forall>cell\<in>set (FAS_LOOP3_N c1 c2 c3).
      rd (arr coarse) (case cell of (i, j, k) \<Rightarrow> H_INDEX i j k c1 c2 c3) = Some v"
    using rd_const [OF coarse(2,3) pos] by auto
  have p2: "0 < c1 * 2" "0 < c2 * 2" "0 < c3 * 2" using pos by simp_all
  have rng: "\<forall>t\<in>set ?terms. 0 \<le> fst t \<and> fst t < int (length ?a0)"
    using H_INDEX_range [OF p2] fine(2) by (auto simp: prolong_terms_def)
  have tot: "?a' = replicate ?N v"
  proof (rule nth_equalityI)
    show "length ?a' = length (replicate ?N v)" by simp
  next
    fix n assume "n < length ?a'"
    then have n: "n < ?N" by simp
    then have "0 \<le> int n" "int n < (c1 * 2) * (c2 * 2) * (c3 * 2)" using fine(2) by simp_all
    from fine_cell_total [OF pos this] n show "?a' ! n = replicate ?N v ! n" by simp
  qed
  have "foldM (\<lambda>a (i, j, k).
             do {
               coarse_grid_val \<leftarrow> rd (arr coarse) (H_INDEX i j k c1 c2 c3);
               foldM (interpolate_adj c1 c2 c3 coarse_grid_val (i * 2) (j * 2) (k * 2))
                 a adj_offsets
             })
           ?a0 (FAS_LOOP3_N c1 c2 c3) = Some (replicate ?N v)"
    unfolding prolong_fold [OF rdc] foldM_add [OF rng] using tot by simp
  moreover obtain gh' where gh': "wr gh (dIdx s (coarse_depth + 1)) (fine\<lparr>arr := replicate ?N v\<rparr>) = Some gh'"
    "rd gh' (dIdx s (coarse_depth + 1)) = Some (fine\<lparr>arr := replicate ?N v\<rparr>)"
    using fine(1) by (auto simp: rd_def wr_def split: if_splits)
  ultimately have "interpolate_h s gh coarse_depth = Some gh'"
    using n coarse(1) fine(1) z by (simp add: interpolate_h_def Let_def)
  with gh'(2) show ?thesis by auto
qed

subsection \<open>The constructor builds the hierarchy of dimensions\<close>

lemma coarsen_ceil: "0 \<le> (n::int) \<Longrightarrow> n sdiv 2 + n smod 2 = \<lceil>real_of_int n / 2\<rceil>"
proof -
  assume n: "0 \<le> n"
  have c: "\<lceil>real_of_int n / 2\<rceil> = - ((- n) div 2)"
    using ceiling_divide_eq_div [of n 2] by simp
  have d: "n sdiv 2 = n div 2" using n by (cases "n = 0") (simp_all add: signed_divide_int_def sgn_if)
  have m: "n smod 2 = n mod 2" using n by (cases "n = 0") (simp_all add: signed_modulo_int_def sgn_if)
  show ?thesis unfolding c d m by presburger
qed

lemma coarsen_nonneg: "0 \<le> (n::int) \<Longrightarrow> 0 \<le> n sdiv 2 + n smod 2"
  using coarsen_ceil[of n] by (simp add: ceiling_le_iff)

lemma others_kept_refl [simp]: "others_kept e xs xs"
  by (simp add: others_kept_def)

lemma others_kept_trans: "others_kept e xs ys \<Longrightarrow> others_kept e ys zs \<Longrightarrow> others_kept e xs zs"
  by (simp add: others_kept_def)

lemma others_kept_upd [simp]: "others_kept e xs (xs[e := v])"
  by (simp add: others_kept_def)

lemma depth_frame_refl [simp]: "depth_frame e s s"
  by (simp add: depth_frame_def)

lemma depth_frame_trans: "depth_frame e s s' \<Longrightarrow> depth_frame e s' s'' \<Longrightarrow> depth_frame e s s''"
  unfolding depth_frame_def by (metis others_kept_trans)

lemma row_ok_step:
  "row_ok h M (Suc k) row \<Longrightarrow> k < M \<Longrightarrow> grid_dims h M k g \<Longrightarrow> row_ok h M k (row[k := g])"
  by (auto simp: row_ok_def nth_list_update less_Suc_eq_le Suc_le_eq)

lemma ctor_grid_sel [simp]:
  "nx (ctor_grid n1 n2 n3) = n1" "ny (ctor_grid n1 n2 n3) = n2" "nz (ctor_grid n1 n2 n3) = n3"
  "pts (ctor_grid n1 n2 n3) = n1 * n2 * n3"
  by (simp_all add: ctor_grid_def arr_init_def)

lemma row_ok_top: "length row = M \<Longrightarrow> row_ok h M M row"
  by (auto simp: row_ok_def)

lemma grid_dims_ctor_grid:
  "n1 = dim_seq (NX h) (M - 1 - i) \<Longrightarrow> n2 = dim_seq (NY h) (M - 1 - i) \<Longrightarrow>
   n3 = dim_seq (NZ h) (M - 1 - i) \<Longrightarrow> grid_dims h M i (ctor_grid n1 n2 n3)"
  by (simp add: grid_dims_def)

lemma dims_ok_step:
  assumes "dims_ok h M (Suc k) s" "k < M"
    "nx_h s' = (nx_h s)[k := dim_seq (NX h) (M - 1 - k)]"
    "ny_h s' = (ny_h s)[k := dim_seq (NY h) (M - 1 - k)]"
    "nz_h s' = (nz_h s)[k := dim_seq (NZ h) (M - 1 - k)]"
  shows "dims_ok h M k s'"
  using assms by (auto simp: dims_ok_def nth_list_update less_Suc_eq_le Suc_le_eq)

lemma ctor_depth_step:
  assumes inv: "depth_inv h M e (Suc k) s" and k: "k < M"
  shows "\<exists>s'. ctor_depth h ue (int e) s (int k + 1) = Some s' \<and> depth_inv h M e k s' \<and>
               depth_frame e s s'"
proof -
  let ?n1 = "dim_seq (NX h) (M - 1 - k)" and ?n2 = "dim_seq (NY h) (M - 1 - k)"
    and ?n3 = "dim_seq (NZ h) (M - 1 - k)"
  have md: "min_depth s = 1" "max_depth s = int M" and dims: "dims_ok h M (Suc k) s"
    and len: "e < length (u_h s)" "e < length (coarse_src_h s)" "e < length (damping_v_h s)"
      "e < length (jac_rhs_h s)" "e < length (tmp_h s)"
    and rows: "row_ok h M (Suc k) (u_h s ! e)" "row_ok h M (Suc k) (coarse_src_h s ! e)"
      "row_ok h M (Suc k) (damping_v_h s ! e)" "row_ok h M (Suc k) (jac_rhs_h s ! e)"
      "row_ok h M (Suc k) (tmp_h s ! e)"
    using inv by (simp_all add: depth_inv_def)
  have dl: "length (nx_h s) = M" "length (ny_h s) = M" "length (nz_h s) = M"
    using dims by (simp_all add: dims_ok_def)
  have rl: "length (u_h s ! e) = M" "length (coarse_src_h s ! e) = M"
    "length (damping_v_h s ! e) = M" "length (jac_rhs_h s ! e) = M" "length (tmp_h s ! e) = M"
    using rows by (simp_all add: row_ok_def)
  obtain gu where gu: "grid_dims h M k gu" and
    step: "ctor_depth h ue (int e) s (int k + 1) = Some (s\<lparr>
      nx_h := (nx_h s)[k := ?n1], ny_h := (ny_h s)[k := ?n2], nz_h := (nz_h s)[k := ?n3],
      u_h := (u_h s)[e := (u_h s ! e)[k := gu]],
      coarse_src_h := (coarse_src_h s)[e := (coarse_src_h s ! e)[k := ctor_grid ?n1 ?n2 ?n3]],
      damping_v_h := (damping_v_h s)[e := (damping_v_h s ! e)[k := ctor_grid ?n1 ?n2 ?n3]],
      jac_rhs_h := (jac_rhs_h s)[e := (jac_rhs_h s ! e)[k := ctor_grid ?n1 ?n2 ?n3]],
      tmp_h := (tmp_h s)[e := (tmp_h s ! e)[k := ctor_grid ?n1 ?n2 ?n3]]\<rparr>)"
  proof (cases "Suc k = M")
    case True
    have d0: "M - 1 - k = 0" "M - Suc k = 0" using True by simp_all
    let ?g = "(u_h s ! e ! k)\<lparr>arr := arr ue, nx := NX h, ny := NY h, nz := NZ h,
                        pts := NX h * NY h * NZ h\<rparr>"
    have "grid_dims h M k ?g" by (simp add: grid_dims_def d0)
    moreover have "ctor_depth h ue (int e) s (int k + 1) = Some (s\<lparr>
      nx_h := (nx_h s)[k := ?n1], ny_h := (ny_h s)[k := ?n2], nz_h := (nz_h s)[k := ?n3],
      u_h := (u_h s)[e := (u_h s ! e)[k := ?g]],
      coarse_src_h := (coarse_src_h s)[e := (coarse_src_h s ! e)[k := ctor_grid ?n1 ?n2 ?n3]],
      damping_v_h := (damping_v_h s)[e := (damping_v_h s ! e)[k := ctor_grid ?n1 ?n2 ?n3]],
      jac_rhs_h := (jac_rhs_h s)[e := (jac_rhs_h s ! e)[k := ctor_grid ?n1 ?n2 ?n3]],
      tmp_h := (tmp_h s)[e := (tmp_h s ! e)[k := ctor_grid ?n1 ?n2 ?n3]]\<rparr>)"
      using md dl len rl k True by (simp add: ctor_depth_def dIdx_def Let_def d0)
    ultimately show ?thesis using that by blast
  next
    case False
    then have lt: "Suc k < M" using k by simp
    have d1: "M - 1 - k = Suc (M - 1 - Suc k)" "M - Suc k = Suc (M - Suc (Suc k))"
      using lt by simp_all
    have nxt: "nx_h s ! Suc k = dim_seq (NX h) (M - 1 - Suc k)"
      "ny_h s ! Suc k = dim_seq (NY h) (M - 1 - Suc k)"
      "nz_h s ! Suc k = dim_seq (NZ h) (M - 1 - Suc k)"
      using dims lt by (simp_all add: dims_ok_def)
    have nat1: "nat (int k + 1) = Suc k" by simp
    have "grid_dims h M k (ctor_grid ?n1 ?n2 ?n3)" by (simp add: grid_dims_ctor_grid)
    moreover have "ctor_depth h ue (int e) s (int k + 1) = Some (s\<lparr>
      nx_h := (nx_h s)[k := ?n1], ny_h := (ny_h s)[k := ?n2], nz_h := (nz_h s)[k := ?n3],
      u_h := (u_h s)[e := (u_h s ! e)[k := ctor_grid ?n1 ?n2 ?n3]],
      coarse_src_h := (coarse_src_h s)[e := (coarse_src_h s ! e)[k := ctor_grid ?n1 ?n2 ?n3]],
      damping_v_h := (damping_v_h s)[e := (damping_v_h s ! e)[k := ctor_grid ?n1 ?n2 ?n3]],
      jac_rhs_h := (jac_rhs_h s)[e := (jac_rhs_h s ! e)[k := ctor_grid ?n1 ?n2 ?n3]],
      tmp_h := (tmp_h s)[e := (tmp_h s ! e)[k := ctor_grid ?n1 ?n2 ?n3]]\<rparr>)"
      using md dl len rl k lt nxt
      by (simp add: ctor_depth_def dIdx_def Let_def d1 nat1 del: dim_seq.simps)
        (simp add: d1)
    ultimately show ?thesis using that by blast
  qed
  let ?s' = "the (ctor_depth h ue (int e) s (int k + 1))"
  have s': "ctor_depth h ue (int e) s (int k + 1) = Some ?s'" using step by simp
  have r1: "row_ok h M k (u_h ?s' ! e)" using row_ok_step[OF rows(1) k gu] len by (simp add: step)
  have g: "grid_dims h M k (ctor_grid ?n1 ?n2 ?n3)" by (simp add: grid_dims_ctor_grid)
  have r2: "row_ok h M k (coarse_src_h ?s' ! e)" using row_ok_step[OF rows(2) k g] len by (simp add: step)
  have r3: "row_ok h M k (damping_v_h ?s' ! e)" using row_ok_step[OF rows(3) k g] len by (simp add: step)
  have r4: "row_ok h M k (jac_rhs_h ?s' ! e)" using row_ok_step[OF rows(4) k g] len by (simp add: step)
  have r5: "row_ok h M k (tmp_h ?s' ! e)" using row_ok_step[OF rows(5) k g] len by (simp add: step)
  have d: "dims_ok h M k ?s'" by (rule dims_ok_step[OF dims k]) (simp_all add: step)
  have i: "depth_inv h M e k ?s'"
    unfolding depth_inv_def using r1 r2 r3 r4 r5 d md len by (simp add: step)
  have f: "depth_frame e s ?s'" by (simp add: depth_frame_def step)
  show ?thesis using s' i f by blast
qed

lemma rev_upto_Suc: "rev [1..int (Suc k)] = (int k + 1) # rev [1..int k]"
  using upto_rec2 [of 1 "int (Suc k)"] by (simp add: add.commute)

lemma ctor_depth_loop:
  "depth_inv h M e k s \<Longrightarrow> k \<le> M \<Longrightarrow>
   \<exists>s'. foldM (ctor_depth h ue (int e)) s (rev [1..int k]) = Some s' \<and> depth_inv h M e 0 s' \<and>
        depth_frame e s s'"
proof (induction k arbitrary: s)
  case 0
  then show ?case by simp
next
  case (Suc k)
  from Suc.prems obtain s1 where s1: "ctor_depth h ue (int e) s (int k + 1) = Some s1"
    "depth_inv h M e k s1" "depth_frame e s s1"
    using ctor_depth_step [of h M e k s ue] by auto
  from Suc.IH [OF s1(2)] Suc.prems obtain s' where
    s': "foldM (ctor_depth h ue (int e)) s1 (rev [1..int k]) = Some s'" "depth_inv h M e 0 s'"
      "depth_frame e s1 s'"
    by auto
  have "foldM (ctor_depth h ue (int e)) s (rev [1..int (Suc k)]) = Some s'"
    unfolding rev_upto_Suc using s1(1) s'(1) by simp
  then show ?case using s'(2) depth_frame_trans [OF s1(3) s'(3)] by blast
qed

lemma rho_frame_refl [simp]: "rho_frame e m s s"
  by (simp add: rho_frame_def)

lemma rho_frame_trans: "rho_frame e m s s' \<Longrightarrow> rho_frame e m s' s'' \<Longrightarrow> rho_frame e m s s''"
  unfolding rho_frame_def
  by (metis (no_types, lifting) FASMultigrid.surjective FASMultigrid.update_convs(6) others_kept_trans)

lemma ctor_rho_depth_step:
  assumes inv: "rho_inv h M e m (Suc k) s" and k: "k < M"
  shows "\<exists>s'. ctor_rho_depth (int e) (int m) s (int k + 1) = Some s' \<and> rho_inv h M e m k s' \<and>
               rho_frame e m s s'"
proof -
  let ?g = "ctor_grid (dim_seq (NX h) (M - 1 - k)) (dim_seq (NY h) (M - 1 - k))
      (dim_seq (NZ h) (M - 1 - k))"
  let ?s' = "s\<lparr>rho_h := (rho_h s)[e := (rho_h s ! e)[m := (rho_h s ! e ! m)[k := ?g]]]\<rparr>"
  have md: "min_depth s = 1" "max_depth s = int M" and dims: "dims_ok h M 0 s"
    and len: "e < length (rho_h s)" "m < length (rho_h s ! e)"
    and row: "row_ok h M (Suc k) (rho_h s ! e ! m)"
    using inv by (simp_all add: rho_inv_def)
  have dl: "length (nx_h s) = M" "length (ny_h s) = M" "length (nz_h s) = M"
    "nx_h s ! k = dim_seq (NX h) (M - 1 - k)" "ny_h s ! k = dim_seq (NY h) (M - 1 - k)"
    "nz_h s ! k = dim_seq (NZ h) (M - 1 - k)"
    using dims k by (simp_all add: dims_ok_def)
  have rl: "length (rho_h s ! e ! m) = M" using row by (simp add: row_ok_def)
  have step: "ctor_rho_depth (int e) (int m) s (int k + 1) = Some ?s'"
    using md dl len rl k by (simp add: ctor_rho_depth_def dIdx_def Let_def)
  have g: "grid_dims h M k ?g" by (simp add: grid_dims_ctor_grid)
  have "row_ok h M k (rho_h ?s' ! e ! m)" using row_ok_step [OF row k g] len by simp
  moreover have "dims_ok h M 0 ?s'" using dims by (simp add: dims_ok_def)
  ultimately have "rho_inv h M e m k ?s'" using md len by (simp add: rho_inv_def)
  moreover have "rho_frame e m s ?s'" using len by (simp add: rho_frame_def)
  ultimately show ?thesis using step by blast
qed

lemma ctor_rho_depth_loop:
  "rho_inv h M e m k s \<Longrightarrow> k \<le> M \<Longrightarrow>
   \<exists>s'. foldM (ctor_rho_depth (int e) (int m)) s (rev [1..int k]) = Some s' \<and>
        rho_inv h M e m 0 s' \<and> rho_frame e m s s'"
proof (induction k arbitrary: s)
  case 0
  then show ?case by simp
next
  case (Suc k)
  from Suc.prems obtain s1 where s1: "ctor_rho_depth (int e) (int m) s (int k + 1) = Some s1"
    "rho_inv h M e m k s1" "rho_frame e m s s1"
    using ctor_rho_depth_step [of h M e m k s] by auto
  from Suc.IH [OF s1(2)] Suc.prems obtain s' where
    s': "foldM (ctor_rho_depth (int e) (int m)) s1 (rev [1..int k]) = Some s'"
      "rho_inv h M e m 0 s'" "rho_frame e m s1 s'"
    by auto
  have "foldM (ctor_rho_depth (int e) (int m)) s (rev [1..int (Suc k)]) = Some s'"
    unfolding rev_upto_Suc using s1(1) s'(1) by simp
  then show ?case using s'(2) rho_frame_trans [OF s1(3) s'(3)] by blast
qed

lemma mol_frame_refl [simp]: "mol_frame e s s"
  by (simp add: mol_frame_def)

lemma mol_frame_trans: "mol_frame e s s' \<Longrightarrow> mol_frame e s' s'' \<Longrightarrow> mol_frame e s s''"
  unfolding mol_frame_def
  by (metis (no_types, lifting) FASMultigrid.surjective FASMultigrid.update_convs(6) others_kept_trans)

lemma ctor_rho_mol_step:
  assumes inv: "mol_inv h M e mn m s" and m: "m < mn"
  shows "\<exists>s'. ctor_rho_mol (int e) s (int m) = Some s' \<and> mol_inv h M e mn (Suc m) s' \<and>
               mol_frame e s s'"
proof -
  let ?s1 = "s\<lparr>rho_h := (rho_h s)[e := (rho_h s ! e)[m := replicate M arr_default]]\<rparr>"
  have md: "min_depth s = 1" "max_depth s = int M" "total_depths s = int M"
    and dims: "dims_ok h M 0 s"
    and len: "e < length (rho_h s)" "length (rho_h s ! e) = mn"
    and ms: "mols_ok h M m (rho_h s ! e)"
    using inv by (simp_all add: mol_inv_def)
  have "rho_inv h M e m M ?s1"
    using md dims len m by (simp add: rho_inv_def dims_ok_def row_ok_top)
  from ctor_rho_depth_loop [OF this] obtain s' where
    s': "foldM (ctor_rho_depth (int e) (int m)) ?s1 (rev [1..int M]) = Some s'"
      "rho_inv h M e m 0 s'" "rho_frame e m ?s1 s'"
    by auto
  have run: "ctor_rho_mol (int e) s (int m) = Some s'"
    using md len m s'(1) by (simp add: ctor_rho_mol_def depths_down_def)
  have eq: "s' = s\<lparr>rho_h := rho_h s'\<rparr>" 
    using s'(3) unfolding rho_frame_def
    by (metis (no_types, lifting) FASMultigrid.surjective FASMultigrid.update_convs(6))
  have k1: "others_kept e (rho_h s) (rho_h s')"
    using s'(3) len by (simp add: rho_frame_def others_kept_def)
  have k2: "others_kept m (rho_h s ! e) (rho_h s' ! e)"
    using s'(3) len m by (simp add: rho_frame_def others_kept_def)
  have "mols_ok h M (Suc m) (rho_h s' ! e)"
    unfolding mols_ok_def
  proof (intro allI impI)
    fix m' assume "m' < Suc m"
    then consider "m' = m" | "m' < m" by linarith
    then show "row_ok h M 0 (rho_h s' ! e ! m')"
    proof cases
      case 1
      then show ?thesis using s'(2) by (simp add: rho_inv_def)
    next
      case 2
      then have "rho_h s' ! e ! m' = rho_h s ! e ! m'" using k2 by (simp add: others_kept_def)
      then show ?thesis using ms 2 by (simp add: mols_ok_def)
    qed
  qed
  moreover have "dims_ok h M 0 s'" using s'(2) by (simp add: rho_inv_def)
  moreover have "min_depth s' = 1" "max_depth s' = int M" using s'(2) by (simp_all add: rho_inv_def)
  moreover have "total_depths s' = int M" using eq md(3) by (metis FASMultigrid.select_convs(17) FASMultigrid.surjective FASMultigrid.update_convs(6))
  moreover have "e < length (rho_h s')" "length (rho_h s' ! e) = mn"
    using k1 k2 len by (simp_all add: others_kept_def)
  ultimately have "mol_inv h M e mn (Suc m) s'" by (simp add: mol_inv_def)
  moreover have "mol_frame e s s'" using eq k1 by (simp add: mol_frame_def)
  ultimately show ?thesis using run by blast
qed

lemma ctor_rho_mol_loop:
  "mol_inv h M e mn 0 s \<Longrightarrow> m \<le> mn \<Longrightarrow>
   \<exists>s'. foldM (ctor_rho_mol (int e)) s (idx_range (int m)) = Some s' \<and>
        mol_inv h M e mn m s' \<and> mol_frame e s s'"
proof (induction m)
  case 0
  then show ?case by (simp add: idx_range_def)
next
  case (Suc m)
  then obtain s1 where s1: "foldM (ctor_rho_mol (int e)) s (idx_range (int m)) = Some s1"
    "mol_inv h M e mn m s1" "mol_frame e s s1"
    by auto
  from ctor_rho_mol_step [OF s1(2)] Suc.prems obtain s' where
    s': "ctor_rho_mol (int e) s1 (int m) = Some s'" "mol_inv h M e mn (Suc m) s'"
      "mol_frame e s1 s'"
    by auto
  have "foldM (ctor_rho_mol (int e)) s (idx_range (int (Suc m))) = Some s'"
    unfolding idx_range_Suc foldM_append using s1(1) s'(1) by simp
  then show ?case using s'(2) mol_frame_trans [OF s1(3) s'(3)] by blast
qed

lemma eqn_done_cong:
  assumes "eqn_done h M mns s e"
    "u_h s' ! e = u_h s ! e" "coarse_src_h s' ! e = coarse_src_h s ! e"
    "damping_v_h s' ! e = damping_v_h s ! e" "jac_rhs_h s' ! e = jac_rhs_h s ! e"
    "tmp_h s' ! e = tmp_h s ! e" "rho_h s' ! e = rho_h s ! e"
  shows "eqn_done h M mns s' e"
  using assms by (simp add: eqn_done_def)

lemma ctor_eqn_step:
  assumes inv: "eqn_inv h M U mns E s" and E: "E < U" "U \<le> length mns" "U \<le> length u_in"
  shows "\<exists>s'. ctor_eqn h u_in s (int E) = Some s' \<and> eqn_inv h M U mns (Suc E) s'"
proof -
  let ?fresh = "replicate M arr_default"
  let ?mn = "mns ! E"
  let ?s0 = "s\<lparr>u_h := (u_h s)[E := ?fresh], coarse_src_h := (coarse_src_h s)[E := ?fresh],
     damping_v_h := (damping_v_h s)[E := ?fresh], jac_rhs_h := (jac_rhs_h s)[E := ?fresh],
     tmp_h := (tmp_h s)[E := ?fresh], rho_h := (rho_h s)[E := replicate (nat ?mn) []],
     nx_h := replicate M 0, ny_h := replicate M 0, nz_h := replicate M 0,
     eqns := (eqns s)[E := replicate (nat ?mn) molecule_default]\<rparr>"
  have sc: "min_depth s = 1" "max_depth s = int M" "total_depths s = int M" "u_n s = int U"
    "molecule_n s = mns"
    and len: "length (u_h s) = U" "length (coarse_src_h s) = U" "length (damping_v_h s) = U"
      "length (jac_rhs_h s) = U" "length (tmp_h s) = U" "length (rho_h s) = U"
      "length (eqns s) = U"
    and prev: "\<forall>e<E. eqn_done h M mns s e"
    using inv by (simp_all add: eqn_inv_def)
  have "depth_inv h M E M ?s0"
    using sc len E by (simp add: depth_inv_def dims_ok_def row_ok_top)
  from ctor_depth_loop [OF this, of "u_in ! E"] obtain s2 where
    s2: "foldM (ctor_depth h (u_in ! E) (int E)) ?s0 (rev [1..int M]) = Some s2"
      "depth_inv h M E 0 s2" "depth_frame E ?s0 s2"
    by auto
  have f2: "others_kept E (u_h s) (u_h s2)" "others_kept E (coarse_src_h s) (coarse_src_h s2)"
    "others_kept E (damping_v_h s) (damping_v_h s2)" "others_kept E (jac_rhs_h s) (jac_rhs_h s2)"
    "others_kept E (tmp_h s) (tmp_h s2)" "rho_h s2 = (rho_h s)[E := replicate (nat ?mn) []]"
    "eqns s2 = (eqns s)[E := replicate (nat ?mn) molecule_default]"
    "u_n s2 = int U" "molecule_n s2 = mns" "total_depths s2 = int M" "min_depth s2 = 1"
    "max_depth s2 = int M"
    using s2(3) sc by (simp_all add: depth_frame_def others_kept_def)
  have "mol_inv h M E (nat ?mn) 0 s2"
    using s2(2) f2 len E by (simp add: mol_inv_def depth_inv_def mols_ok_def)
  from ctor_rho_mol_loop [OF this, of "nat ?mn"] obtain s3 where
    s3: "foldM (ctor_rho_mol (int E)) s2 (idx_range (int (nat ?mn))) = Some s3"
      "mol_inv h M E (nat ?mn) (nat ?mn) s3" "mol_frame E s2 s3"
    by auto
  have rng: "idx_range ?mn = idx_range (int (nat ?mn))" by (simp add: idx_range_def)
  have run: "ctor_eqn h u_in s (int E) = Some s3"
    using sc len E s2(1) s3(1)
    by (simp add: ctor_eqn_def Let_def depths_down_def rng del: int_nat_eq)
  have eq3: "s3 = s2\<lparr>rho_h := rho_h s3\<rparr>" and k3: "others_kept E (rho_h s2) (rho_h s3)"
    using s3(3) by (simp_all add: mol_frame_def)
  have sel3: "u_h s3 = u_h s2" "coarse_src_h s3 = coarse_src_h s2"
    "damping_v_h s3 = damping_v_h s2" "jac_rhs_h s3 = jac_rhs_h s2" "tmp_h s3 = tmp_h s2"
    "eqns s3 = eqns s2" "u_n s3 = u_n s2" "molecule_n s3 = molecule_n s2"
    by (subst eq3, simp)+
  have "eqn_done h M mns s3 e" if e: "e < Suc E" for e
  proof (cases "e = E")
    case True
    then show ?thesis
      using s2(2) s3(2) by (simp add: eqn_done_def depth_inv_def mol_inv_def sel3)
  next
    case False
    then have lt: "e < E" using e by simp
    show ?thesis
      apply (rule eqn_done_cong [of h M mns s])
      using prev lt f2 k3 False by (simp_all add: sel3 others_kept_def)
  qed
  moreover have "dims_ok h M 0 s3" using s3(2) by (simp add: mol_inv_def)
  moreover have "min_depth s3 = 1" "max_depth s3 = int M" "total_depths s3 = int M"
    using s3(2) by (simp_all add: mol_inv_def)
  moreover have "length (rho_h s3) = U" using k3 f2 len by (simp add: others_kept_def)
  ultimately have "eqn_inv h M U mns (Suc E) s3"
    using f2 len by (simp add: eqn_inv_def sel3 others_kept_def)
  then show ?thesis using run by blast
qed

lemma ctor_eqn_loop:
  "eqn_inv h M U mns 0 s \<Longrightarrow> E \<le> U \<Longrightarrow> U \<le> length mns \<Longrightarrow> U \<le> length u_in \<Longrightarrow>
   \<exists>s'. foldM (ctor_eqn h u_in) s (idx_range (int E)) = Some s' \<and> eqn_inv h M U mns E s'"
proof (induction E)
  case 0
  then show ?case by (simp add: idx_range_def)
next
  case (Suc E)
  then obtain s1 where s1: "foldM (ctor_eqn h u_in) s (idx_range (int E)) = Some s1"
    "eqn_inv h M U mns E s1"
    by auto
  from ctor_eqn_step [OF s1(2), of u_in] Suc.prems obtain s' where
    s': "ctor_eqn h u_in s1 (int E) = Some s'" "eqn_inv h M U mns (Suc E) s'"
    by auto
  have "foldM (ctor_eqn h u_in) s (idx_range (int (Suc E))) = Some s'"
    unfolding idx_range_Suc foldM_append using s1(1) s'(1) by simp
  then show ?case using s'(2) by blast
qed

lemma FASMultigrid_new_inv:
  assumes "U \<le> length mns" "U \<le> length u_in"
  shows "\<exists>s. FASMultigrid_new h u_in (int U) mns (int M) iters tol = Some s \<and>
             eqn_inv h M U mns U s"
proof -
  have "eqn_inv h M U mns 0 (ctor_members (int U) mns (int M) iters tol)"
    by (simp add: eqn_inv_def ctor_members_def)
  from ctor_eqn_loop [OF this, of U u_in] assms show ?thesis
    by (simp add: FASMultigrid_new_def)
qed

lemma dim_seq_nonneg: "0 \<le> n \<Longrightarrow> 0 \<le> dim_seq n k"
  by (induction k) (simp_all add: coarsen_nonneg)

lemma dim_seq_ceil: "0 \<le> n \<Longrightarrow> dim_seq n (Suc k) = \<lceil>real_of_int (dim_seq n k) / 2\<rceil>"
  using coarsen_ceil [OF dim_seq_nonneg, of n k] by simp

lemma halved_dim_seq:
  assumes "0 \<le> n" "length ns = M" "\<forall>i<M. ns ! i = dim_seq n (M - 1 - i)" "1 < d" "d \<le> int M"
  shows "halved ns (d - 1)"
proof -
  let ?i = "nat (d - 1)"
  have i: "?i < M" "?i - 1 < M" "nat (d - 1 - 1) = ?i - 1" using assms(4,5) by auto
  have "M - 1 - (?i - 1) = Suc (M - 1 - ?i)" using assms(4,5) by auto
  then have "ns ! (?i - 1) = \<lceil>real_of_int (ns ! ?i) / 2\<rceil>"
    using assms(1,3) i dim_seq_ceil [of n "M - 1 - ?i"] by simp
  then show ?thesis
    unfolding halved_def using assms(2,4,5) i by (simp add: rd_def)
qed

lemma row_ok_grid:
  assumes "row_ok h M 0 row" "dims_ok h M 0 s" "min_depth s = 1" "1 \<le> d" "d \<le> int M"
  shows "grid_at_depth s d (rd row (dIdx s d))"
proof -
  let ?i = "nat (d - 1)"
  have i: "?i < M" using assms(4,5) by auto
  have "grid_dims h M ?i (row ! ?i)" "length row = M"
    using assms(1) i by (simp_all add: row_ok_def)
  moreover have "nx_h s ! ?i = dim_seq (NX h) (M - 1 - ?i)" "ny_h s ! ?i = dim_seq (NY h) (M - 1 - ?i)"
    "nz_h s ! ?i = dim_seq (NZ h) (M - 1 - ?i)" "length (nx_h s) = M" "length (ny_h s) = M"
    "length (nz_h s) = M"
    using assms(2) i by (simp_all add: dims_ok_def)
  ultimately show ?thesis
    using assms(3,4,5) i by (simp add: grid_at_depth_def dIdx_def rd_def grid_dims_def)
qed

text \<open>
  Claim C6. After construction (for at least one unknown, at least one depth, and problem
  sizes that are not negative), the depths run from \<open>min_depth = 1\<close> to \<open>max_depth\<close>; for
  every depth \<open>d\<close> above \<open>min_depth\<close> and each axis the dimension at depth \<open>d - 1\<close> is the
  ceiling of half the dimension at depth \<open>d\<close>; at \<open>max_depth\<close> the dimensions are
  \<^verbatim>\<open>NX\<close>, \<^verbatim>\<open>NY\<close>, \<^verbatim>\<open>NZ\<close>; and every grid of the five hierarchies and of the \<open>rho\<close>
  hierarchies carries the dimensions of its depth, with \<open>pts = nx * ny * nz\<close>.
\<close>

theorem ctor_dimension_hierarchy:
  assumes "1 \<le> u_n_in" "1 \<le> max_depth_in" "0 \<le> NX h" "0 \<le> NY h" "0 \<le> NZ h"
    "u_n_in \<le> int (length u_in)" "u_n_in \<le> int (length molecule_n_in)"
  shows "\<exists>s. FASMultigrid_new h u_in u_n_in molecule_n_in max_depth_in iters tol = Some s \<and>
    min_depth s = 1 \<and> max_depth s = max_depth_in \<and> u_n s = u_n_in \<and>
    molecule_n s = molecule_n_in \<and>
    (\<forall>d. min_depth s < d \<and> d \<le> max_depth s \<longrightarrow>
       halved (nx_h s) (dIdx s d) \<and> halved (ny_h s) (dIdx s d) \<and> halved (nz_h s) (dIdx s d)) \<and>
    rd (nx_h s) (dIdx s (max_depth s)) = Some (NX h) \<and>
    rd (ny_h s) (dIdx s (max_depth s)) = Some (NY h) \<and>
    rd (nz_h s) (dIdx s (max_depth s)) = Some (NZ h) \<and>
    (\<forall>e d. 0 \<le> e \<and> e < u_n s \<and> min_depth s \<le> d \<and> d \<le> max_depth s \<longrightarrow>
       grid_at_depth s d (rd2 (u_h s) e (dIdx s d)) \<and>
       grid_at_depth s d (rd2 (coarse_src_h s) e (dIdx s d)) \<and>
       grid_at_depth s d (rd2 (damping_v_h s) e (dIdx s d)) \<and>
       grid_at_depth s d (rd2 (jac_rhs_h s) e (dIdx s d)) \<and>
       grid_at_depth s d (rd2 (tmp_h s) e (dIdx s d)) \<and>
       (\<forall>m. 0 \<le> m \<and> m < molecule_n s ! nat e \<longrightarrow>
          grid_at_depth s d (rd2 (rho_h s ! nat e) m (dIdx s d))))"
proof -
  define U M where "U = nat u_n_in" and "M = nat max_depth_in"
  have UM: "int U = u_n_in" "int M = max_depth_in" "0 < U" "0 < M"
    using assms(1,2) by (simp_all add: U_def M_def)
  have "U \<le> length molecule_n_in" "U \<le> length u_in" using assms(6,7) UM by linarith+
  from FASMultigrid_new_inv [OF this, of h M iters tol] obtain s where
    s: "FASMultigrid_new h u_in u_n_in molecule_n_in max_depth_in iters tol = Some s"
    and inv: "eqn_inv h M U molecule_n_in U s"
    by (auto simp: UM)
  have sc: "min_depth s = 1" "max_depth s = int M" "u_n s = int U" "molecule_n s = molecule_n_in"
    and len: "length (u_h s) = U" "length (coarse_src_h s) = U" "length (damping_v_h s) = U"
      "length (jac_rhs_h s) = U" "length (tmp_h s) = U" "length (rho_h s) = U"
    and dims: "dims_ok h M 0 s" and rows: "\<forall>e<U. eqn_done h M molecule_n_in s e"
    using inv UM by (simp_all add: eqn_inv_def)
  have dl: "length (nx_h s) = M" "length (ny_h s) = M" "length (nz_h s) = M"
    "\<forall>i<M. nx_h s ! i = dim_seq (NX h) (M - 1 - i)"
    "\<forall>i<M. ny_h s ! i = dim_seq (NY h) (M - 1 - i)"
    "\<forall>i<M. nz_h s ! i = dim_seq (NZ h) (M - 1 - i)"
    using dims by (simp_all add: dims_ok_def)
  have A: "halved (nx_h s) (dIdx s d) \<and> halved (ny_h s) (dIdx s d) \<and> halved (nz_h s) (dIdx s d)"
    if "min_depth s < d \<and> d \<le> max_depth s" for d
    using that sc halved_dim_seq [OF assms(3) dl(1) dl(4), of d]
      halved_dim_seq [OF assms(4) dl(2) dl(5), of d] halved_dim_seq [OF assms(5) dl(3) dl(6), of d]
    by (simp add: dIdx_def)
  have B: "rd (nx_h s) (dIdx s (max_depth s)) = Some (NX h)"
    "rd (ny_h s) (dIdx s (max_depth s)) = Some (NY h)"
    "rd (nz_h s) (dIdx s (max_depth s)) = Some (NZ h)"
    using dl sc UM(4) by (simp_all add: dIdx_def rd_def nat_diff_distrib)
  have C: "grid_at_depth s d (rd2 (u_h s) e (dIdx s d)) \<and>
       grid_at_depth s d (rd2 (coarse_src_h s) e (dIdx s d)) \<and>
       grid_at_depth s d (rd2 (damping_v_h s) e (dIdx s d)) \<and>
       grid_at_depth s d (rd2 (jac_rhs_h s) e (dIdx s d)) \<and>
       grid_at_depth s d (rd2 (tmp_h s) e (dIdx s d)) \<and>
       (\<forall>m. 0 \<le> m \<and> m < molecule_n s ! nat e \<longrightarrow>
          grid_at_depth s d (rd2 (rho_h s ! nat e) m (dIdx s d)))"
    if "0 \<le> e \<and> e < u_n s \<and> min_depth s \<le> d \<and> d \<le> max_depth s" for e d
  proof -
    have e: "0 \<le> e" "nat e < U" "e < int U" and d: "1 \<le> d" "d \<le> int M" using that sc by auto
    have ed: "eqn_done h M molecule_n_in s (nat e)" using rows e by simp
    have r: "\<And>X. length X = U \<Longrightarrow> rd2 X e (dIdx s d) = rd (X ! nat e) (dIdx s d)"
      using e by (simp add: rd2_def)
    have m: "grid_at_depth s d (rd2 (rho_h s ! nat e) m (dIdx s d))"
      if "0 \<le> m \<and> m < molecule_n s ! nat e" for m
    proof -
      have "nat m < nat (molecule_n_in ! nat e)" using that sc by auto
      then have "row_ok h M 0 (rho_h s ! nat e ! nat m)" "nat m < length (rho_h s ! nat e)"
        using ed by (simp_all add: eqn_done_def mols_ok_def)
      moreover from this have "rd2 (rho_h s ! nat e) m (dIdx s d) = rd (rho_h s ! nat e ! nat m) (dIdx s d)"
        using that by (simp add: rd2_def)
      ultimately show ?thesis using row_ok_grid [OF _ dims sc(1) d] by simp
    qed
    show ?thesis
      using ed row_ok_grid [OF _ dims sc(1) d] m by (simp add: r len eqn_done_def)
  qed
  show ?thesis
    using s sc UM A B C by blast
qed

text \<open>
  The constructor on a 3 x 3 x 3 problem with one unknown, one molecule and two depths.
\<close>

theorem ctor_dimension_hierarchy_witness:
  "\<exists>s. FASMultigrid_new host3 [arr_init 3 3 3] 1 [1] 2 10 (1 / 10) = Some s \<and>
       rd (nx_h s) 1 = Some 3 \<and> halved (nx_h s) 1 \<and>
       grid_at_depth s 1 (rd2 (tmp_h s) 0 0)"
proof -
  have "1 \<le> (1::int)" "1 \<le> (2::int)" "0 \<le> NX host3" "0 \<le> NY host3" "0 \<le> NZ host3"
    "1 \<le> int (length [arr_init 3 3 3])" "1 \<le> int (length [1::int])"
    by (simp_all add: host3_def)
  from ctor_dimension_hierarchy [OF this, of 10 "1 / 10"] obtain s where
    s: "FASMultigrid_new host3 [arr_init 3 3 3] 1 [1] 2 10 (1 / 10) = Some s"
      "min_depth s = 1" "max_depth s = 2" "u_n s = 1"
      "\<forall>d. min_depth s < d \<and> d \<le> max_depth s \<longrightarrow>
       halved (nx_h s) (dIdx s d) \<and> halved (ny_h s) (dIdx s d) \<and> halved (nz_h s) (dIdx s d)"
      "rd (nx_h s) (dIdx s (max_depth s)) = Some (NX host3)"
      "\<forall>e d. 0 \<le> e \<and> e < u_n s \<and> min_depth s \<le> d \<and> d \<le> max_depth s \<longrightarrow>
       grid_at_depth s d (rd2 (u_h s) e (dIdx s d)) \<and>
       grid_at_depth s d (rd2 (coarse_src_h s) e (dIdx s d)) \<and>
       grid_at_depth s d (rd2 (damping_v_h s) e (dIdx s d)) \<and>
       grid_at_depth s d (rd2 (jac_rhs_h s) e (dIdx s d)) \<and>
       grid_at_depth s d (rd2 (tmp_h s) e (dIdx s d)) \<and>
       (\<forall>m. 0 \<le> m \<and> m < molecule_n s ! nat e \<longrightarrow>
          grid_at_depth s d (rd2 (rho_h s ! nat e) m (dIdx s d)))"
    by blast
  have "halved (nx_h s) 1" using s(5) [rule_format, of 2] s(2,3) by (simp add: dIdx_def)
  moreover have "rd (nx_h s) 1 = Some 3" using s(6) s(2,3) by (simp add: dIdx_def host3_def)
  moreover have "grid_at_depth s 1 (rd2 (tmp_h s) 0 0)"
    using s(7) [rule_format, of 0 1] s(2,3,4) by (simp add: dIdx_def)
  ultimately show ?thesis using s(1) by blast
qed

subsection \<open>The singularity warning\<close>

lemma singularity_scan_iff:
  "singularity_scan u is = Some b \<Longrightarrow>
   b \<longleftrightarrow> (\<exists>i\<in>set is. sign (u ! nat i) * sign (u ! 0) < 0)"
proof (induction "is")
  case Nil
  then show ?case by simp
next
  case (Cons i "is")
  from Cons.prems obtain x x0 where x: "rd u i = Some x" "rd u 0 = Some x0"
    by (auto split: bind_splits)
  then have v: "x = u ! nat i" "x0 = u ! 0" by (auto simp: rd_def split: if_splits)
  show ?case
  proof (cases "sign x * sign x0 < 0")
    case True
    then show ?thesis using Cons.prems x v by auto
  next
    case False
    then have "singularity_scan u is = Some b" using Cons.prems x by simp
    from Cons.IH [OF this] False v show ?thesis by auto
  qed
qed

lemma sign_product_negative:
  "sign x * sign y < 0 \<longleftrightarrow> (x < 0 \<and> 0 < y) \<or> (0 < x \<and> y < 0)"
  by (auto simp: sign_def mult_less_0_iff)

lemma singularityExists_iff:
  assumes "singularityExists s eqn_id depth = Some b"
  shows "\<exists>n1 n2 n3 u. rd (nx_h s) (dIdx s depth) = Some n1 \<and> rd (ny_h s) (dIdx s depth) = Some n2 \<and>
     rd (nz_h s) (dIdx s depth) = Some n3 \<and> rd2 (u_h s) eqn_id (dIdx s depth) = Some u \<and>
     (b \<longleftrightarrow> (\<exists>k. 1 \<le> k \<and> k < n1 * n2 * n3 \<and>
        ((arr u ! nat k < 0 \<and> 0 < arr u ! 0) \<or> (0 < arr u ! nat k \<and> arr u ! 0 < 0))))"
proof -
  from assms obtain n1 n2 n3 u where
    r: "rd (nx_h s) (dIdx s depth) = Some n1" "rd (ny_h s) (dIdx s depth) = Some n2"
      "rd (nz_h s) (dIdx s depth) = Some n3" "rd2 (u_h s) eqn_id (dIdx s depth) = Some u"
    and sc: "singularity_scan (arr u) [1..n1 * n2 * n3 - 1] = Some b"
    by (auto simp: singularityExists_def Let_def split: bind_splits)
  from singularity_scan_iff [OF sc]
  have "b \<longleftrightarrow> (\<exists>k. 1 \<le> k \<and> k < n1 * n2 * n3 \<and>
        ((arr u ! nat k < 0 \<and> 0 < arr u ! 0) \<or> (0 < arr u ! nat k \<and> arr u ! 0 < 0)))"
    by (auto simp: sign_product_negative)
  with r show ?thesis by blast
qed

lemma summary_messages:
  "foldM (summary_eqn s) out0 es = Some out \<Longrightarrow>
   (\<forall>e\<in>set es. \<exists>b. singularityExists s e (max_depth s) = Some b) \<and>
   (Crosses_zero e \<in> set out \<longleftrightarrow>
     Crosses_zero e \<in> set out0 \<or> (e \<in> set es \<and> singularityExists s e (max_depth s) = Some True))"
proof (induction es arbitrary: out0)
  case Nil
  then show ?case by simp
next
  case (Cons x es)
  from Cons.prems obtain o1 where o1: "summary_eqn s out0 x = Some o1"
    and rest: "foldM (summary_eqn s) o1 es = Some out"
    by (auto split: option.splits)
  from o1 obtain sing u where
    x: "singularityExists s x (max_depth s) = Some sing"
    and o1': "o1 = out0 @ [if sing then Crosses_zero x else Stays_signed x, Avg_min_max (arr_stats u)]"
    by (auto simp: summary_eqn_def split: bind_splits)
  from Cons.IH [OF rest] x show ?case unfolding o1' by auto
qed

text \<open>
  What the summary tests. When \<^verbatim>\<open>VCycles\<close> returns, the solver is the one its final smoothing
  pass left, and the summary holds the singularity warning for variable \<open>e\<close> exactly when at
  some site \<open>k \<ge> 1\<close> of the finest grid \<open>_sign(u_e[k]) * _sign(u_e[0])\<close> is negative.
\<close>

lemma VCycles_singularity_warning:
  assumes "VCycles h s num_cycles = Some (Ok (s2, out))" "0 \<le> e" "e < u_n s2"
  shows "(\<exists>s1. relaxSolution_GaussSeidel h s1 (max_depth s1) 10 = Some (Ok s2)) \<and>
    (\<exists>n1 n2 n3 u. rd (nx_h s2) (dIdx s2 (max_depth s2)) = Some n1 \<and>
       rd (ny_h s2) (dIdx s2 (max_depth s2)) = Some n2 \<and>
       rd (nz_h s2) (dIdx s2 (max_depth s2)) = Some n3 \<and>
       rd2 (u_h s2) e (dIdx s2 (max_depth s2)) = Some u \<and>
       (Crosses_zero e \<in> set out \<longleftrightarrow>
          (\<exists>k. 1 \<le> k \<and> k < n1 * n2 * n3 \<and>
             ((arr u ! nat k < 0 \<and> 0 < arr u ! 0) \<or> (0 < arr u ! nat k \<and> arr u ! 0 < 0)))))"
proof -
  from assms(1) obtain s1 where
    r: "relaxSolution_GaussSeidel h s1 (max_depth s1) 10 = Some (Ok s2)"
    and f: "foldM (summary_eqn s2) [] (idx_range (u_n s2)) = Some out"
    by (auto simp: VCycles_def bindR_def lift_def split: option.splits result.splits)
  have e: "e \<in> set (idx_range (u_n s2))" using assms(2,3) by (simp add: set_idx_range)
  from summary_messages [OF f, of e] e obtain b where
    b: "singularityExists s2 e (max_depth s2) = Some b"
    and w: "Crosses_zero e \<in> set out \<longleftrightarrow> singularityExists s2 e (max_depth s2) = Some True"
    by fastforce
  from singularityExists_iff [OF b] w b r show ?thesis by auto
qed

lemma line_solver_residual: "getMaxResidualAllEqs host3 (line_solver [a, b, c]) 1 = Some 0"
  by (simp add: getMaxResidualAllEqs_def getMaxResidual_def sites_at_def sites_of_def
      FAS_LOOP3_N_def idx_range_def eval_nat_numeral H_INDEX_def dIdx_def line_solver_def
      rd_def rd2_def evaluateEllipticEquationPt_def eval_atom_def get_atom_def pos_index_def
      rho_at_def host3_def Let_def)

lemma line_solver_relax:
  "relaxSolution_GaussSeidel host3 (line_solver [a, b, c]) 1 10 = Some (Ok (line_solver [a, b, c]))"
proof -
  have f: "sites_at (line_solver [a, b, c]) (dIdx (line_solver [a, b, c]) 1) = Some (sites_of 3 1 1)"
    "relaxation_tolerance (line_solver [a, b, c]) = 1 / 10"
    by (simp_all add: line_solver_def sites_at_def dIdx_def rd_def)
  have "relax_round host3 1 (line_solver [a, b, c]) = Some (Break (line_solver [a, b, c]))"
    by (simp add: relax_round_def line_solver_residual Let_def f)
  from relax_rounds_break [OF this] show ?thesis by (simp add: relaxSolution_GaussSeidel_def)
qed

lemma line_solver_fields:
  "max_depth (line_solver us) = 1" "min_depth (line_solver us) = 1" "u_n (line_solver us) = 1"
  "max_depth_idx (line_solver us) = 0" "rd2 (u_h (line_solver us)) 0 0 = Some (grid 3 1 1 us)"
  "rd (nx_h (line_solver us)) 0 = Some 3" "rd (ny_h (line_solver us)) 0 = Some 1"
  "rd (nz_h (line_solver us)) 0 = Some 1"
  by (simp_all add: line_solver_def rd2_def rd_def)

lemma line_solver_VCycles:
  "singularityExists (line_solver [a, b, c]) 0 1 = Some sing \<Longrightarrow>
   VCycles host3 (line_solver [a, b, c]) 0 =
     Some (Ok (line_solver [a, b, c],
       [if sing then Crosses_zero 0 else Stays_signed 0,
        Avg_min_max (arr_stats (grid 3 1 1 [a, b, c]))]))"
  by (simp add: VCycles_def bindR_def lift_def line_solver_fields line_solver_relax
      line_solver_residual summary_eqn_def)

text \<open>
  Claim C8 fails on the code. On the finest grid \<open>u = [0, 1, -1]\<close> solves its equation, so
  the final smoothing pass leaves it as it is. \<open>u\<close> changes sign: it takes the values 1 and
  -1, and the sign of \<open>u[1]\<close> differs from the sign 0 of \<open>u[0]\<close>. \<^verbatim>\<open>_singularityExists\<close>
  multiplies every sign with the sign of \<open>u[0]\<close>, which is 0, finds no negative product, and
  the summary says that the solution stays positive or negative.
\<close>

theorem zero_first_site_hides_sign_change:
  "VCycles host3 (line_solver [0, 1, - 1]) 0 =
     Some (Ok (line_solver [0, 1, - 1], [Stays_signed 0, Avg_min_max (Some (0, - 1, 1))])) \<and>
   rd2 (u_h (line_solver [0, 1, - 1])) 0 (max_depth_idx (line_solver [0, 1, - 1])) =
     Some (grid 3 1 1 [0, 1, - 1]) \<and>
   sign 0 \<noteq> sign 1 \<and> sign 1 * sign (- 1) < 0"
proof -
  have "singularityExists (line_solver [0, 1, - 1]) 0 1 = Some False"
    by (simp add: singularityExists_def line_solver_def dIdx_def rd_def rd2_def Let_def
        upto.simps sign_def)
  from line_solver_VCycles [OF this] show ?thesis
    by (simp add: line_solver_fields arr_stats_def sign_def)
qed

text \<open>With \<open>u = [1, -1, 1]\<close> the warning is in the summary.\<close>

lemma VCycles_singularity_warning_witness:
  "\<exists>out. VCycles host3 (line_solver [1, - 1, 1]) 0 = Some (Ok (line_solver [1, - 1, 1], out)) \<and>
     Crosses_zero 0 \<in> set out"
proof -
  let ?s = "line_solver [1, - 1, 1]"
  have "singularityExists ?s 0 1 = Some True"
    by (simp add: singularityExists_def line_solver_def dIdx_def rd_def rd2_def Let_def
        upto.simps sign_def)
  from line_solver_VCycles [OF this] obtain out where
    run: "VCycles host3 ?s 0 = Some (Ok (?s, out))" by simp
  have "0 \<le> (0::int)" "0 < u_n ?s" by (simp_all add: line_solver_fields)
  from VCycles_singularity_warning [OF run this] obtain n1 n2 n3 u where
    r: "rd (nx_h ?s) (dIdx ?s (max_depth ?s)) = Some n1"
      "rd (ny_h ?s) (dIdx ?s (max_depth ?s)) = Some n2"
      "rd (nz_h ?s) (dIdx ?s (max_depth ?s)) = Some n3"
      "rd2 (u_h ?s) 0 (dIdx ?s (max_depth ?s)) = Some u"
      "Crosses_zero 0 \<in> set out \<longleftrightarrow>
          (\<exists>k. 1 \<le> k \<and> k < n1 * n2 * n3 \<and>
             ((arr u ! nat k < 0 \<and> 0 < arr u ! 0) \<or> (0 < arr u ! nat k \<and> arr u ! 0 < 0)))"
    by blast
  have v: "n1 = 3" "n2 = 1" "n3 = 1" "u = grid 3 1 1 [1, - 1, 1]"
    using r(1-4) by (simp_all add: dIdx_def line_solver_fields)
  have "(1::int) \<le> 1 \<and> (1::int) < n1 * n2 * n3 \<and>
      ((arr u ! nat 1 < 0 \<and> 0 < arr u ! 0) \<or> (0 < arr u ! nat 1 \<and> arr u ! 0 < 0))"
    unfolding v by simp
  then have "Crosses_zero 0 \<in> set out" using r(5) by blast
  then show ?thesis using run by blast
qed

subsection \<open>The line search\<close>

lemma update_sites_add:
  "update_sites (\<lambda>x y. x + c * y) v u sites = Some u' \<Longrightarrow>
   length u' = length u \<and>
   (\<forall>L<length u. u' ! L = u ! L + c * (real (visits sites L) * v ! L))"
proof (induction sites arbitrary: u)
  case Nil
  then show ?case by (simp add: update_sites_def visits_def)
next
  case (Cons t sites)
  obtain i j k idx where t: "t = (i, j, k, idx)" by (cases t)
  from Cons.prems obtain x y where x: "rd u idx = Some x" and y: "rd v idx = Some y"
    and rest: "update_sites (\<lambda>x y. x + c * y) v (u[nat idx := x + c * y]) sites = Some u'"
    unfolding t update_sites_def
    by (auto simp: wr_def rd_def split: bind_splits if_splits)
  have r: "0 \<le> idx" "nat idx < length u" "x = u ! nat idx" "y = v ! nat idx"
    using x y by (auto simp: rd_def split: if_splits)
  from Cons.IH [OF rest] have ih: "length u' = length u"
    "\<And>L. L < length u \<Longrightarrow>
      u' ! L = u[nat idx := x + c * y] ! L + c * (real (visits sites L) * v ! L)"
    by auto
  have "u' ! L = u ! L + c * (real (visits (t # sites) L) * v ! L)" if L: "L < length u" for L
  proof (cases "L = nat idx")
    case True
    then have "visits (t # sites) L = Suc (visits sites L)" using r by (simp add: visits_def t)
    then show ?thesis using ih(2) [OF L] True r by (simp add: algebra_simps)
  next
    case False
    then have "visits (t # sites) L = visits sites L" using r by (auto simp: visits_def t)
    then show ?thesis using ih(2) [OF L] False by simp
  qed
  then show ?case using ih(1) by simp
qed

lemma update_sites_shift:
  "update_sites (\<lambda>x y. x + c * y) v u sites = Some u' \<Longrightarrow> u' = shift c sites v u"
  using update_sites_add [of c v u sites u'] by (auto simp: shift_def intro: nth_equalityI)

lemma shift_shift: "shift c2 sites v (shift c1 sites v u) = shift (c1 + c2) sites v u"
  by (auto simp: shift_def algebra_simps)

lemma shift_zero: "shift 0 sites v u = u"
  by (simp add: shift_def map_nth)

lemma row_shift_row_shift:
  "row_shift c2 sites d vrow (row_shift c1 sites d vrow row) = row_shift (c1 + c2) sites d vrow row"
  by (cases "d < length row") (simp_all add: row_shift_def shift_shift not_less list_update_beyond)

lemma row_shift_zero: "row_shift 0 sites d vrow row = row"
  by (simp add: row_shift_def shift_zero)

lemma shift_rows_shift_rows:
  "shift_rows c2 sites d n vs (shift_rows c1 sites d n vs us) = shift_rows (c1 + c2) sites d n vs us"
  by (auto simp: shift_rows_def row_shift_row_shift)

lemma shift_rows_zero: "shift_rows 0 sites d n vs us = us"
  by (auto simp: shift_rows_def row_shift_zero intro: nth_equalityI)

lemma shift_u_shift_u: "shift_u c2 sites d (shift_u c1 sites d s) = shift_u (c1 + c2) sites d s"
  by (simp add: shift_u_def shift_rows_shift_rows)

lemma shift_u_zero: "shift_u 0 sites d s = s"
  by (simp add: shift_u_def shift_rows_zero)

text \<open>One round of the loop over the equations in \<open>update_u\<close>.\<close>

lemma update_u_body:
  assumes "rd2 (u_h s) e d \<bind> (\<lambda>u. rd2 (damping_v_h s) e d \<bind> (\<lambda>damping_v.
       update_sites (\<lambda>x y. x + c * y) (arr damping_v) (arr u) sites \<bind> (\<lambda>a.
       wr2 (u_h s) e d (u\<lparr>arr := a\<rparr>) \<bind> (\<lambda>u'. Some (s\<lparr>u_h := u'\<rparr>))))) = Some s'"
  shows "0 \<le> e \<and> nat e < length (u_h s) \<and> 0 \<le> d \<and>
     s' = s\<lparr>u_h := (u_h s)[nat e :=
        row_shift c sites (nat d) (damping_v_h s ! nat e) (u_h s ! nat e)]\<rparr>"
proof -
  from assms obtain u damping_v a u' where
    u: "rd2 (u_h s) e d = Some u" and v: "rd2 (damping_v_h s) e d = Some damping_v"
    and a: "update_sites (\<lambda>x y. x + c * y) (arr damping_v) (arr u) sites = Some a"
    and u': "wr2 (u_h s) e d (u\<lparr>arr := a\<rparr>) = Some u'" and s': "s' = s\<lparr>u_h := u'\<rparr>"
    by (auto split: bind_splits)
  have ru: "0 \<le> e" "nat e < length (u_h s)" "0 \<le> d" "nat d < length (u_h s ! nat e)"
    "u = u_h s ! nat e ! nat d"
    using u by (auto simp: rd2_def rd_def split: bind_splits if_splits)
  have rv: "damping_v = damping_v_h s ! nat e ! nat d"
    using v by (auto simp: rd2_def rd_def split: bind_splits if_splits)
  have "u' = (u_h s)[nat e := (u_h s ! nat e)[nat d := u\<lparr>arr := a\<rparr>]]"
    using u' ru by (auto simp: wr2_def wr_def rd_def split: bind_splits if_splits)
  then show ?thesis
    using ru rv s' update_sites_shift [OF a] by (simp add: row_shift_def)
qed

lemma shift_rows_step:
  assumes "k < length us"
  shows "(shift_rows c sites d k vs us)[k := row_shift c sites d (vs ! k) (us ! k)] =
     shift_rows c sites d (Suc k) vs us"
  using assms by (auto simp: shift_rows_def nth_list_update intro!: nth_equalityI)

lemma update_u_prefix:
  "foldM (\<lambda>s eqn_id.
         do {
           u \<leftarrow> rd2 (u_h s) eqn_id d;
           damping_v \<leftarrow> rd2 (damping_v_h s) eqn_id d;
           a \<leftarrow> update_sites (\<lambda>x y. x + c * y) (arr damping_v) (arr u) sites;
           u' \<leftarrow> wr2 (u_h s) eqn_id d (u\<lparr>arr := a\<rparr>);
           Some (s\<lparr>u_h := u'\<rparr>)
         })
       s (idx_range (int k)) = Some s' \<Longrightarrow>
   s' = s\<lparr>u_h := shift_rows c sites (nat d) k (damping_v_h s) (u_h s)\<rparr>"
proof (induction k arbitrary: s')
  case 0
  have "shift_rows c sites (nat d) 0 (damping_v_h s) (u_h s) = u_h s"
    by (auto simp: shift_rows_def intro: nth_equalityI)
  with 0 show ?case by (simp add: idx_range_def)
next
  case (Suc k)
  let ?body = "\<lambda>s eqn_id.
         do {
           u \<leftarrow> rd2 (u_h s) eqn_id d;
           damping_v \<leftarrow> rd2 (damping_v_h s) eqn_id d;
           a \<leftarrow> update_sites (\<lambda>x y. x + c * y) (arr damping_v) (arr u) sites;
           u' \<leftarrow> wr2 (u_h s) eqn_id d (u\<lparr>arr := a\<rparr>);
           Some (s\<lparr>u_h := u'\<rparr>)
         }"
  from Suc.prems obtain s1 where s1: "foldM ?body s (idx_range (int k)) = Some s1"
    and last: "?body s1 (int k) = Some s'"
    unfolding idx_range_Suc foldM_append by (auto split: option.splits)
  have e1: "s1 = s\<lparr>u_h := shift_rows c sites (nat d) k (damping_v_h s) (u_h s)\<rparr>"
    using Suc.IH [OF s1] .
  from update_u_body [OF last] have k: "k < length (u_h s1)"
    and s': "s' = s1\<lparr>u_h := (u_h s1)[k :=
        row_shift c sites (nat d) (damping_v_h s1 ! k) (u_h s1 ! k)]\<rparr>"
    by simp_all
  have len: "length (u_h s1) = length (u_h s)" by (simp add: e1 shift_rows_def)
  have rowk: "u_h s1 ! k = u_h s ! k" using k len by (simp add: e1 shift_rows_def)
  have "(u_h s1)[k := row_shift c sites (nat d) (damping_v_h s ! k) (u_h s ! k)] =
      shift_rows c sites (nat d) (Suc k) (damping_v_h s) (u_h s)"
    using shift_rows_step [of k "u_h s" c sites "nat d" "damping_v_h s"] k len by (simp add: e1)
  then show ?case using s' rowk by (simp add: e1)
qed

lemma update_u_shift:
  assumes "update_u (\<lambda>x y. x + c * y) s d sites = Some s'"
  shows "s' = shift_u c sites (nat d) s"
proof -
  have r: "idx_range (u_n s) = idx_range (int (nat (u_n s)))" by (simp add: idx_range_def)
  show ?thesis
    using assms unfolding update_u_def shift_u_def r by (rule update_u_prefix)
qed

lemma rollback_fun: "(\<lambda>x y. x - 0.01 * y) = (\<lambda>x y :: real. x + (- 0.01) * y)"
  by (simp add: fun_eq_iff)

lemma lambda_trials_failure:
  "lambda_trials h d nrm sites n s = Some (False, s') \<Longrightarrow>
   s' = shift_u (- 0.01 * real n) sites (nat d) s"
proof (induction n arbitrary: s)
  case 0
  then show ?case by (simp add: shift_u_zero)
next
  case (Suc n)
  from Suc.prems obtain s1 where
    s1: "update_u (\<lambda>x y. x - 0.01 * y) s d sites = Some s1"
    and rest: "lambda_trials h d nrm sites n s1 = Some (False, s')"
    by (auto split: bind_splits if_splits)
  have e1: "s1 = shift_u (- 0.01) sites (nat d) s"
    using s1 update_u_shift [of "- 0.01" s d sites s1] by (simp add: rollback_fun)
  have e2: "s' = shift_u (- 0.01 * real n) sites (nat d) s1" using Suc.IH [OF rest] .
  have c: "(- 0.01 :: real) + - 0.01 * real n = - 0.01 * real (Suc n)"
    by (simp add: field_simps)
  show ?case unfolding e2 e1 shift_u_shift_u c ..
qed

text \<open>
  Claim C9. When \<^verbatim>\<open>_getLambda\<close> returns failure, the solver is as it was on entry: at every
  visit of a site the unit step adds \<open>damping_v[idx]\<close> to \<open>u[idx]\<close> and each of the 100
  rollbacks takes a hundredth of it away, and nothing but the \<open>u\<close> grids of that depth is
  written. Arithmetic is exact in the model.
\<close>

theorem getLambda_failure_restores_u:
  assumes "getLambda h s depth nrm = Some (False, s')"
  shows "s' = s"
proof -
  from assms obtain sites s1 where
    s1: "update_u (\<lambda>x y. x + 1.0 * y) s (dIdx s depth) sites = Some s1"
    and t: "lambda_trials h (dIdx s depth) nrm sites 100 s1 = Some (False, s')"
    by (auto simp: getLambda_def Let_def split: bind_splits)
  have "s1 = shift_u 1.0 sites (nat (dIdx s depth)) s" using update_u_shift [OF s1] .
  with lambda_trials_failure [OF t] show ?thesis by (simp add: shift_u_shift_u shift_u_zero)
qed

lemma eval_square:
  "evaluateEllipticEquationPt host3 (point_solver [square_u0] q x v r) 0 0 0 0 0 = Some (x ^ 2)"
  by (simp add: evaluateEllipticEquationPt_def rd_def rd2_def
      square_u0_def eval_atom_def get_atom_def pos_index_def host3_def H_INDEX_def)

lemma residual_square:
  "residual_sum host3 (point_solver [square_u0] q x v r) 0 [(0, 0, 0, 0)] = Some (x ^ 4)"
  by (simp add: residual_sum_def eval_square rd_def rd2_def Let_def power4_eq_xxxx power2_eq_square)

lemma trials_square:
  "n \<le> k \<Longrightarrow>
   lambda_trials host3 0 0 [(0, 0, 0, 0)] n (point_solver [square_u0] q (real k / 100) 1 r) =
     Some (False, point_solver [square_u0] q (real (k - n) / 100) 1 r)"
proof (induction n arbitrary: k)
  case 0
  then show ?case by simp
next
  case (Suc n)
  then obtain k' where k: "k = Suc k'" "n \<le> k'" by (cases k) auto
  have pos: "\<not> (real k / 100) ^ 4 \<le> 0" unfolding k by simp
  have st: "real k' / 100 = real k / 100 - 0.01 * 1" unfolding k by (simp add: field_simps)
  have step: "lambda_trials host3 0 0 [(0, 0, 0, 0)] (Suc n) (point_solver [square_u0] q x 1 r) =
      lambda_trials host3 0 0 [(0, 0, 0, 0)] n (point_solver [square_u0] q y 1 r)"
    if "\<not> x ^ 4 \<le> 0" "y = x - 0.01 * 1" for x y
    using that by (simp add: residual_square update_point)
  have "k - Suc n = k' - n" unfolding k by simp
  then show ?case
    unfolding step [OF pos st] using Suc.IH [OF k(2)] by simp
qed

text \<open>
  The equation \<open>u\<^sup>2 = 0\<close> at one site, with \<open>u = 0\<close>, \<open>damping_v = 1\<close> and the norm 0
  of the residual at \<open>u\<close>: every trial has a positive residual, and the line search fails.
\<close>

theorem getLambda_failure_restores_u_witness:
  "getLambda host3 (point_solver [square_u0] 0 0 1 0) 1 0 =
     Some (False, point_solver [square_u0] 0 0 1 0)"
proof -
  have "getLambda host3 (point_solver [square_u0] 0 0 1 0) 1 0 =
      lambda_trials host3 0 0 [(0, 0, 0, 0)] 100 (point_solver [square_u0] 0 (real 100 / 100) 1 0)"
    by (simp add: getLambda_def Let_def dIdx_def update_point)
  then obtain s' where f: "getLambda host3 (point_solver [square_u0] 0 0 1 0) 1 0 = Some (False, s')"
    using trials_square [of 100 100 0 0] by simp
  from getLambda_failure_restores_u [OF f] f show ?thesis by simp
qed

end
